theory Spec2Isabelle
  imports Main
begin

section \<open>Values, errors and display text\<close>

text \<open>
  The report engine of \<^verbatim>\<open>app.py\<close> handles duck-typed Python values: labels are strings,
  statistics are numbers, and an absent statistic is \<^verbatim>\<open>None\<close>. A float is carried by its
  display text (what \<^verbatim>\<open>str\<close> returns for it), since the conversion of a binary float to
  decimal text is outside this development. Strings are lists of characters, one
  \<^typ>\<open>char\<close> per character of the Python string.
\<close>

datatype pyval = PStr string | PInt int | PFloat string | PNone

text \<open>The exceptions the modelled code can raise.\<close>

datatype error = IndexError | TypeError | UnboundLocalError

text \<open>The three alignment marks \<^verbatim>\<open>'<'\<close>, \<^verbatim>\<open>'>'\<close> and \<^verbatim>\<open>'^'\<close> that \<^verbatim>\<open>format_line\<close> documents.\<close>

datatype just = JLeft | JRight | JCenter

abbreviation NL :: char where
  "NL \<equiv> CHR 0x0A"

abbreviation CR :: char where
  "CR \<equiv> CHR 0x0D"

definition digit_char :: "nat \<Rightarrow> char" where
  "digit_char n = ''0123456789'' ! n"

fun str_nat :: "nat \<Rightarrow> string" where
  "str_nat n = (if n < 10 then [digit_char n] else str_nat (n div 10) @ [digit_char (n mod 10)])"

declare str_nat.simps [simp del]

definition str_int :: "int \<Rightarrow> string" where
  "str_int i = (if i < 0 then CHR ''-'' # str_nat (nat (- i)) else str_nat (nat i))"

text \<open>\<^verbatim>\<open>str(v)\<close>, which is also what an f-string field without a format spec produces.\<close>

fun py_str :: "pyval \<Rightarrow> string" where
  "py_str (PStr s) = s"
| "py_str (PInt i) = str_int i"
| "py_str (PFloat t) = t"
| "py_str PNone = ''None''"

text \<open>
  Padding of a display text to a field of width \<open>w\<close>. The width is a minimum: a text that is
  already \<open>w\<close> characters or longer is returned as it is. Centering puts the smaller half of
  the padding on the left, as Python's format mini-language does.
\<close>

fun pad :: "just \<Rightarrow> nat \<Rightarrow> string \<Rightarrow> string" where
  "pad JLeft w s = s @ replicate (w - length s) CHR '' ''"
| "pad JRight w s = replicate (w - length s) CHR '' '' @ s"
| "pad JCenter w s =
     replicate ((w - length s) div 2) CHR '' '' @ s
       @ replicate ((w - length s) - (w - length s) div 2) CHR '' ''"

text \<open>
  \<^verbatim>\<open>format(v, just + str(width))\<close>: a replacement field \<^verbatim>\<open>{:<15}\<close> applied to one value.
  Strings and numbers are padded; \<^verbatim>\<open>None\<close> does not support a non-empty format spec and
  raises \<^verbatim>\<open>TypeError\<close>.
\<close>

fun py_format :: "just \<Rightarrow> nat \<Rightarrow> pyval \<Rightarrow> error + string" where
  "py_format j w PNone = Inl TypeError"
| "py_format j w v = Inr (pad j w (py_str v))"

section \<open>The line formatter\<close>

text \<open>
  \<^verbatim>\<open>
  def format_line(items, column_widths, justifications):
      line_format = "".join(
          ["{:" + just + str(width) + "}" for just, width in zip(justifications, column_widths)]
      ) + "\n"
      return line_format.format(*items)
  \<close>
  The format string has one replacement field per pair of \<^verbatim>\<open>zip(justifications, column_widths)\<close>.
  \<^verbatim>\<open>str.format\<close> fills the fields from left to right with the positional arguments; a field
  whose position has no argument raises \<^verbatim>\<open>IndexError\<close>, and surplus arguments are ignored.
  The widths are natural numbers and the justifications are the three documented marks;
  for these the format spec \<^verbatim>\<open>just + str(width)\<close> is an alignment with a minimum width.
\<close>

fun format_fields :: "(just \<times> nat) list \<Rightarrow> pyval list \<Rightarrow> error + string" where
  "format_fields [] items = Inr []"
| "format_fields (f # fs) [] = Inl IndexError"
| "format_fields ((j, w) # fs) (x # xs) =
     (case py_format j w x of
        Inl e \<Rightarrow> Inl e
      | Inr s \<Rightarrow> (case format_fields fs xs of Inl e \<Rightarrow> Inl e | Inr r \<Rightarrow> Inr (s @ r)))"

definition format_line :: "pyval list \<Rightarrow> nat list \<Rightarrow> just list \<Rightarrow> error + string" where
  "format_line items column_widths justifications =
     (case format_fields (zip justifications column_widths) items of
        Inl e \<Rightarrow> Inl e
      | Inr s \<Rightarrow> Inr (s @ [NL]))"

section \<open>The data source interface\<close>

text \<open>
  A category object of the sampling library is iterated (\<^verbatim>\<open>for params in fans\<close>) and yields
  key tuples; the code reads the first field of a key (\<^verbatim>\<open>params[0]\<close>, the grouping
  discriminator) and, for GPUs, the second (\<^verbatim>\<open>params[1]\<close>, the device name). The
  statistics are reached through the accessors of the category object.
\<close>

datatype params = Params (p0: string) (p1: string) (rest: "string list")

record category =
  is_empty :: bool
  entries :: "params list"
  get_label :: "params \<Rightarrow> pyval"
  get_current :: "params \<Rightarrow> pyval"
  get_min :: "params \<Rightarrow> pyval"
  get_max :: "params \<Rightarrow> pyval"
  get_mean :: "params \<Rightarrow> pyval"

record cpufreq = category +
  get_model :: pyval

record memusage = category +
  get_mem_skus :: "pyval list"

record gpudata = category +
  get_driver_version :: string
  get_subven :: "string \<Rightarrow> string \<Rightarrow> string option"

text \<open>\<^verbatim>\<open>drives.get_model(drive)\<close> is the field \<open>get_drive_model\<close>.\<close>

record drivetemp = category +
  get_drive_model :: "string \<Rightarrow> pyval"

text \<open>
  The fields of \<^verbatim>\<open>OutputData\<close>. The dataclass declares every field \<^verbatim>\<open>Optional\<close> with
  default \<^verbatim>\<open>None\<close>; the two writers are documented to receive the file names, the value
  list and the category objects, and that is the input type taken here.
\<close>

record output_data =
  csv_fn :: string
  summary_fn :: string
  run_time :: pyval
  iterations :: pyval
  watts :: category
  mhz :: cpufreq
  ctemps :: category
  fans :: category
  gpus :: gpudata
  drives :: drivetemp
  usage :: category
  mem :: memusage
  data :: "pyval list"
  time :: pyval
  model_name :: pyval

section \<open>The section renderer\<close>

text \<open>
  \<^verbatim>\<open>
  def append_formatted_section(title, data_rows, headers, col_widths, justifications):
      if data_rows:
          lines.append(title)
          lines.append(format_line(headers, col_widths, justifications))
          for row in data_rows:
              lines.append(format_line(row, col_widths, justifications))
          lines.append("\n")
  \<close>
  \<^verbatim>\<open>lines\<close> is a variable of the enclosing \<^verbatim>\<open>write_summary\<close>; it is passed and returned
  here. An exception of \<^verbatim>\<open>format_line\<close> leaves the function at once.
\<close>

fun format_rows :: "pyval list list \<Rightarrow> nat list \<Rightarrow> just list \<Rightarrow> string list
    \<Rightarrow> error + string list" where
  "format_rows [] cw js lines = Inr lines"
| "format_rows (row # rows) cw js lines =
     (case format_line row cw js of
        Inl e \<Rightarrow> Inl e
      | Inr l \<Rightarrow> format_rows rows cw js (lines @ [l]))"

definition append_formatted_section :: "string \<Rightarrow> pyval list list \<Rightarrow> pyval list \<Rightarrow> nat list
    \<Rightarrow> just list \<Rightarrow> string list \<Rightarrow> error + string list" where
  "append_formatted_section title data_rows headers col_widths justifications lines =
     (if data_rows \<noteq> [] then
        (case format_line headers col_widths justifications of
           Inl e \<Rightarrow> Inl e
         | Inr h \<Rightarrow>
            (case format_rows data_rows col_widths justifications (lines @ [title] @ [h]) of
               Inl e \<Rightarrow> Inl e
             | Inr ls \<Rightarrow> Inr (ls @ [[NL]])))
      else Inr lines)"

section \<open>The sections of the summary\<close>

subsection \<open>Preamble\<close>

text \<open>
  \<^verbatim>\<open>
  lines.append(f"Summary:\nModel: {model_name}\nStart Time: {output_data.time}\n")
  lines.append(f"Runtime: {output_data.run_time}\nCPU: {mhz.get_model()}\n")
  lines.append("Memory SKUs:\n")
  for sku in mem.get_mem_skus():
      lines.append(f"DIMM: {sku}\n")
  \<close>
\<close>

definition preamble :: "output_data \<Rightarrow> string list" where
  "preamble od =
     [''Summary:'' @ [NL] @ ''Model: '' @ py_str (model_name od) @ [NL]
        @ ''Start Time: '' @ py_str (time od) @ [NL],
      ''Runtime: '' @ py_str (run_time od) @ [NL]
        @ ''CPU: '' @ py_str (get_model (mhz od)) @ [NL],
      ''Memory SKUs:'' @ [NL]]
     @ map (\<lambda>sku. ''DIMM: '' @ py_str sku @ [NL]) (get_mem_skus (mem od))"

subsection \<open>Memory\<close>

definition mem_column_widths :: "nat list" where
  "mem_column_widths = [15, 20, 20, 20]"

definition mem_justifications :: "just list" where
  "mem_justifications = [JLeft, JRight, JRight, JRight]"

definition mem_row :: "memusage \<Rightarrow> params \<Rightarrow> pyval list" where
  "mem_row m params = [get_label m params, get_min m params, get_max m params, get_mean m params]"

definition mem_headers :: "string \<Rightarrow> pyval list" where
  "mem_headers mem_type = [PStr mem_type, PStr ''Min'', PStr ''Max'', PStr ''Mean'']"

text \<open>
  The loop over the memory records, with its variables \<^verbatim>\<open>mem_type\<close>, \<^verbatim>\<open>mem_data_rows\<close>,
  \<^verbatim>\<open>headers\<close> and \<^verbatim>\<open>lines\<close> as arguments; it returns the last three.
\<close>

fun mem_loop :: "memusage \<Rightarrow> params list \<Rightarrow> string \<Rightarrow> pyval list list \<Rightarrow> pyval list
    \<Rightarrow> string list \<Rightarrow> error + (pyval list list \<times> pyval list \<times> string list)" where
  "mem_loop m [] mem_type mem_data_rows headers lines = Inr (mem_data_rows, headers, lines)"
| "mem_loop m (params # ps) mem_type mem_data_rows headers lines =
     (if mem_type \<noteq> p0 params then
        (if mem_data_rows \<noteq> [] then
           (case append_formatted_section '''' mem_data_rows headers
                   mem_column_widths mem_justifications lines of
              Inl e \<Rightarrow> Inl e
            | Inr lines' \<Rightarrow>
                mem_loop m ps (p0 params) ([] @ [mem_row m params])
                  (mem_headers (p0 params)) lines')
         else
           mem_loop m ps (p0 params) (mem_data_rows @ [mem_row m params])
             (mem_headers (p0 params)) lines)
      else mem_loop m ps mem_type (mem_data_rows @ [mem_row m params]) headers lines)"

definition mem_section :: "memusage \<Rightarrow> string list \<Rightarrow> error + string list" where
  "mem_section m lines =
     (case mem_loop m (entries m) '''' [] [] lines of
        Inl e \<Rightarrow> Inl e
      | Inr (mem_data_rows, headers, lines') \<Rightarrow>
          append_formatted_section '''' mem_data_rows headers
            mem_column_widths mem_justifications lines')"

subsection \<open>CPU frequency and usage\<close>

text \<open>
  \<^verbatim>\<open>
  for mhz_params, usage_params in zip(mhz, usage):
      cpu_data_rows.append([
          mhz.get_label(mhz_params),
          f"{usage.get_min(usage_params):>4}:{mhz.get_min(mhz_params):>5}",
          f"{usage.get_max(usage_params):>4}:{mhz.get_max(mhz_params):>5}",
          f"{usage.get_mean(usage_params):>4}:{mhz.get_mean(mhz_params):>5}"
      ])
  \<close>
\<close>

definition cpu_column_widths :: "nat list" where
  "cpu_column_widths = [15, 15, 15, 15]"

definition cpu_justifications :: "just list" where
  "cpu_justifications = [JLeft, JRight, JRight, JRight]"

definition cpu_headers :: "pyval list" where
  "cpu_headers = [PStr ''Core'', PStr ''Min %:Mhz'', PStr ''Max %:Mhz'', PStr ''Mean %:Mhz'']"

text \<open>One cell \<^verbatim>\<open>f"{u:>4}:{f:>5}"\<close>.\<close>

definition cpu_cell :: "pyval \<Rightarrow> pyval \<Rightarrow> error + pyval" where
  "cpu_cell u f =
     (case py_format JRight 4 u of
        Inl e \<Rightarrow> Inl e
      | Inr us \<Rightarrow>
         (case py_format JRight 5 f of
            Inl e \<Rightarrow> Inl e
          | Inr fs \<Rightarrow> Inr (PStr (us @ '':'' @ fs))))"

definition cpu_row :: "cpufreq \<Rightarrow> category \<Rightarrow> params \<Rightarrow> params \<Rightarrow> error + pyval list" where
  "cpu_row mz us mhz_params usage_params =
     (case cpu_cell (get_min us usage_params) (get_min mz mhz_params) of
        Inl e \<Rightarrow> Inl e
      | Inr c1 \<Rightarrow>
         (case cpu_cell (get_max us usage_params) (get_max mz mhz_params) of
            Inl e \<Rightarrow> Inl e
          | Inr c2 \<Rightarrow>
             (case cpu_cell (get_mean us usage_params) (get_mean mz mhz_params) of
                Inl e \<Rightarrow> Inl e
              | Inr c3 \<Rightarrow> Inr [get_label mz mhz_params, c1, c2, c3])))"

fun cpu_loop :: "cpufreq \<Rightarrow> category \<Rightarrow> (params \<times> params) list \<Rightarrow> pyval list list
    \<Rightarrow> error + pyval list list" where
  "cpu_loop mz us [] cpu_data_rows = Inr cpu_data_rows"
| "cpu_loop mz us ((mhz_params, usage_params) # ps) cpu_data_rows =
     (case cpu_row mz us mhz_params usage_params of
        Inl e \<Rightarrow> Inl e
      | Inr row \<Rightarrow> cpu_loop mz us ps (cpu_data_rows @ [row]))"

definition cpu_section :: "cpufreq \<Rightarrow> category \<Rightarrow> string list \<Rightarrow> error + string list" where
  "cpu_section mz us lines =
     (case cpu_loop mz us (zip (entries mz) (entries us)) [] of
        Inl e \<Rightarrow> Inl e
      | Inr cpu_data_rows \<Rightarrow>
          append_formatted_section '''' cpu_data_rows cpu_headers
            cpu_column_widths cpu_justifications lines)"

subsection \<open>CPU temperature and power\<close>

text \<open>
  Both sections are guarded by \<^verbatim>\<open>if not c.is_empty()\<close>, collect one row per record and
  call the renderer once with an empty title.
\<close>

definition ctemps_headers :: "pyval list" where
  "ctemps_headers = [PStr ''Core'', PStr ''Min C'', PStr ''Max C'', PStr ''Mean C'']"

definition ctemps_column_widths :: "nat list" where
  "ctemps_column_widths = [15, 10, 10, 10]"

definition ctemps_justifications :: "just list" where
  "ctemps_justifications = [JLeft, JRight, JRight, JRight]"

definition stat_row :: "category \<Rightarrow> params \<Rightarrow> pyval list" where
  "stat_row c params = [get_label c params, get_min c params, get_max c params, get_mean c params]"

definition ctemps_section :: "category \<Rightarrow> string list \<Rightarrow> error + string list" where
  "ctemps_section c lines =
     (if \<not> is_empty c then
        append_formatted_section '''' (map (stat_row c) (entries c)) ctemps_headers
          ctemps_column_widths ctemps_justifications lines
      else Inr lines)"

definition watts_headers :: "pyval list" where
  "watts_headers = [PStr ''CPU'', PStr ''Min W'', PStr ''Max W'', PStr ''Mean W'']"

definition watts_column_widths :: "nat list" where
  "watts_column_widths = [10, 10, 10, 10]"

definition watts_justifications :: "just list" where
  "watts_justifications = [JLeft, JRight, JRight, JRight]"

definition watts_section :: "category \<Rightarrow> string list \<Rightarrow> error + string list" where
  "watts_section c lines =
     (if \<not> is_empty c then
        append_formatted_section '''' (map (stat_row c) (entries c)) watts_headers
          watts_column_widths watts_justifications lines
      else Inr lines)"

subsection \<open>Fans\<close>

definition fan_headers :: "pyval list" where
  "fan_headers =
     [PStr ''Fan'', PStr ''Current(RPM)'', PStr ''Min(RPM)'', PStr ''Max(RPM)'', PStr ''Mean(RPM)'']"

definition fan_column_widths :: "nat list" where
  "fan_column_widths = [15, 15, 15, 15, 15]"

definition fan_justifications :: "just list" where
  "fan_justifications = [JLeft, JRight, JRight, JRight, JRight]"

definition fan_row :: "category \<Rightarrow> params \<Rightarrow> pyval list" where
  "fan_row c params =
     [get_label c params, get_current c params, get_min c params, get_max c params,
      get_mean c params]"

fun fan_loop :: "category \<Rightarrow> params list \<Rightarrow> string \<Rightarrow> pyval list list \<Rightarrow> string list
    \<Rightarrow> error + (string \<times> pyval list list \<times> string list)" where
  "fan_loop c [] driver fan_data_rows lines = Inr (driver, fan_data_rows, lines)"
| "fan_loop c (params # ps) driver fan_data_rows lines =
     (if driver \<noteq> p0 params then
        (if fan_data_rows \<noteq> [] then
           (case append_formatted_section driver fan_data_rows fan_headers
                   fan_column_widths fan_justifications lines of
              Inl e \<Rightarrow> Inl e
            | Inr lines' \<Rightarrow> fan_loop c ps (p0 params) ([] @ [fan_row c params]) lines')
         else fan_loop c ps (p0 params) (fan_data_rows @ [fan_row c params]) lines)
      else fan_loop c ps driver (fan_data_rows @ [fan_row c params]) lines)"

definition fans_section :: "category \<Rightarrow> string list \<Rightarrow> error + string list" where
  "fans_section c lines =
     (if \<not> is_empty c then
        (case fan_loop c (entries c) '''' [] lines of
           Inl e \<Rightarrow> Inl e
         | Inr (driver, fan_data_rows, lines') \<Rightarrow>
             append_formatted_section driver fan_data_rows fan_headers
               fan_column_widths fan_justifications lines')
      else Inr lines)"

subsection \<open>GPUs\<close>

text \<open>
  \<^verbatim>\<open>
  for params in gpus:
      driver_version = ""
      if vendor != params[0]:
          if gpu_data_rows:
              append_formatted_section(f"{vendor}{driver_version}", gpu_data_rows, headers,
                                       column_widths, justifications)
              gpu_data_rows = []
          vendor = params[0]
          if vendor == 'nvidia':
              driver_version = " - " + gpus.get_driver_version()
      if name != params[1]:
          name = params[1]
          subsystem = gpus.get_subven(vendor, name)
          subsystem_info = f"SubSystem: {subsystem}" if subsystem else ""
          gpu_data_rows.append([f"GPU: {name}\n{subsystem_info}"])
      if gpus.get_current(params) is not None:
          gpu_data_rows.append([...])
  append_formatted_section(f"{vendor}{driver_version}", gpu_data_rows, headers,
                           column_widths, justifications)
  \<close>
  The loop variables are the fields of \<open>gpu_state\<close>. \<^verbatim>\<open>driver_version\<close> is assigned only
  inside the loop, so it is unbound (\<open>None\<close>) until the first iteration, and the title of the
  last call reads it.
\<close>

definition gpu_headers :: "pyval list" where
  "gpu_headers = [PStr ''Data'', PStr ''Current'', PStr ''Min'', PStr ''Max'', PStr ''Mean'']"

definition gpu_column_widths :: "nat list" where
  "gpu_column_widths = [15, 15, 15, 15, 15]"

definition gpu_justifications :: "just list" where
  "gpu_justifications = [JLeft, JRight, JRight, JRight, JRight]"

record gpu_state =
  gpu_lines :: "string list"
  gpu_data_rows :: "pyval list list"
  vendor :: string
  name :: string
  driver_version :: "string option"

definition gpu_row :: "gpudata \<Rightarrow> params \<Rightarrow> pyval list" where
  "gpu_row g params =
     [get_label g params, get_current g params, get_min g params, get_max g params,
      get_mean g params]"

definition subsystem_info :: "string option \<Rightarrow> string" where
  "subsystem_info subsystem =
     (case subsystem of
        None \<Rightarrow> ''''
      | Some s \<Rightarrow> if s \<noteq> '''' then ''SubSystem: '' @ s else '''')"

definition gpu_name_row :: "gpudata \<Rightarrow> string \<Rightarrow> string \<Rightarrow> pyval list" where
  "gpu_name_row g vnd nm =
     [PStr (''GPU: '' @ nm @ [NL] @ subsystem_info (get_subven g vnd nm))]"

text \<open>
  The reset of \<^verbatim>\<open>driver_version\<close> and the first \<^verbatim>\<open>if\<close> of the loop body: the flush on a
  change of vendor. At this flush \<^verbatim>\<open>driver_version\<close> has just been reset, so the title
  \<^verbatim>\<open>f"{vendor}{driver_version}"\<close> is the vendor followed by the empty string.
\<close>

definition gpu_vendor_step :: "gpudata \<Rightarrow> params \<Rightarrow> gpu_state \<Rightarrow> error + gpu_state" where
  "gpu_vendor_step g params st =
     (if vendor st \<noteq> p0 params then
        (case (if gpu_data_rows st \<noteq> [] then
                 (case append_formatted_section (vendor st @ '''') (gpu_data_rows st) gpu_headers
                         gpu_column_widths gpu_justifications (gpu_lines st) of
                    Inl e \<Rightarrow> Inl e
                  | Inr lines' \<Rightarrow> Inr (st\<lparr>gpu_lines := lines', gpu_data_rows := []\<rparr>))
               else Inr st) of
           Inl e \<Rightarrow> Inl e
         | Inr st1 \<Rightarrow>
             Inr (st1\<lparr>vendor := p0 params,
                      driver_version :=
                        Some (if p0 params = ''nvidia'' then '' - '' @ get_driver_version g
                              else '''')\<rparr>))
      else Inr (st\<lparr>driver_version := Some ''''\<rparr>))"

text \<open>The second and third \<^verbatim>\<open>if\<close>: the device header row and the metric row.\<close>

definition gpu_rows_step :: "gpudata \<Rightarrow> params \<Rightarrow> gpu_state \<Rightarrow> gpu_state" where
  "gpu_rows_step g params st =
     (let st2 = (if name st \<noteq> p1 params then
                   st\<lparr>name := p1 params,
                      gpu_data_rows :=
                        gpu_data_rows st @ [gpu_name_row g (vendor st) (p1 params)]\<rparr>
                 else st)
      in if get_current g params \<noteq> PNone then
           st2\<lparr>gpu_data_rows := gpu_data_rows st2 @ [gpu_row g params]\<rparr>
         else st2)"

fun gpu_loop :: "gpudata \<Rightarrow> params list \<Rightarrow> gpu_state \<Rightarrow> error + gpu_state" where
  "gpu_loop g [] st = Inr st"
| "gpu_loop g (params # ps) st =
     (case gpu_vendor_step g params st of
        Inl e \<Rightarrow> Inl e
      | Inr st1 \<Rightarrow> gpu_loop g ps (gpu_rows_step g params st1))"

definition gpus_section :: "gpudata \<Rightarrow> string list \<Rightarrow> error + string list" where
  "gpus_section g lines =
     (if \<not> is_empty g then
        (case gpu_loop g (entries g)
                \<lparr>gpu_lines = lines, gpu_data_rows = [], vendor = '''', name = '''',
                 driver_version = None\<rparr> of
           Inl e \<Rightarrow> Inl e
         | Inr st \<Rightarrow>
            (case driver_version st of
               None \<Rightarrow> Inl UnboundLocalError
             | Some dv \<Rightarrow>
                 append_formatted_section (vendor st @ dv) (gpu_data_rows st) gpu_headers
                   gpu_column_widths gpu_justifications (gpu_lines st)))
      else Inr lines)"

subsection \<open>Drives\<close>

definition drive_headers :: "pyval list" where
  "drive_headers = [PStr ''Data'', PStr ''Current'', PStr ''Min'', PStr ''Max'', PStr ''Mean'']"

definition drive_column_widths :: "nat list" where
  "drive_column_widths = [15, 15, 15, 15, 15]"

definition drive_justifications :: "just list" where
  "drive_justifications = [JLeft, JRight, JRight, JRight, JRight]"

definition drive_row :: "drivetemp \<Rightarrow> params \<Rightarrow> pyval list" where
  "drive_row d params =
     [get_label d params, get_current d params, get_min d params, get_max d params,
      get_mean d params]"

text \<open>\<^verbatim>\<open>f"Device: {drive}\nDrive Model: {drives.get_model(drive)}"\<close>\<close>

definition drive_title :: "drivetemp \<Rightarrow> string \<Rightarrow> string" where
  "drive_title d drive =
     ''Device: '' @ drive @ [NL] @ ''Drive Model: '' @ py_str (get_drive_model d drive)"

definition drive_append :: "drivetemp \<Rightarrow> params \<Rightarrow> pyval list list \<Rightarrow> pyval list list" where
  "drive_append d params drive_data_rows =
     (if get_current d params \<noteq> PNone then drive_data_rows @ [drive_row d params]
      else drive_data_rows)"

fun drive_loop :: "drivetemp \<Rightarrow> params list \<Rightarrow> string \<Rightarrow> pyval list list \<Rightarrow> string list
    \<Rightarrow> error + (string \<times> pyval list list \<times> string list)" where
  "drive_loop d [] drive drive_data_rows lines = Inr (drive, drive_data_rows, lines)"
| "drive_loop d (params # ps) drive drive_data_rows lines =
     (if drive \<noteq> p0 params then
        (if drive_data_rows \<noteq> [] then
           (case append_formatted_section (drive_title d drive) drive_data_rows drive_headers
                   drive_column_widths drive_justifications lines of
              Inl e \<Rightarrow> Inl e
            | Inr lines' \<Rightarrow> drive_loop d ps (p0 params) (drive_append d params []) lines')
         else drive_loop d ps (p0 params) (drive_append d params drive_data_rows) lines)
      else drive_loop d ps drive (drive_append d params drive_data_rows) lines)"

definition drives_section :: "drivetemp \<Rightarrow> string list \<Rightarrow> error + string list" where
  "drives_section d lines =
     (if \<not> is_empty d then
        (case drive_loop d (entries d) '''' [] lines of
           Inl e \<Rightarrow> Inl e
         | Inr (drive, drive_data_rows, lines') \<Rightarrow>
             append_formatted_section (drive_title d drive) drive_data_rows drive_headers
               drive_column_widths drive_justifications lines')
      else Inr lines)"

section \<open>The report assembler\<close>

text \<open>
  Files are a map from path to content; opening a path for writing or appending is taken
  to succeed, and text is written as it is (no newline translation, as on POSIX).
  \<^verbatim>\<open>write_summary\<close> builds \<^verbatim>\<open>lines\<close> section by
  section, in the order of the source, and only then opens the summary file for writing
  and stores \<^verbatim>\<open>"".join(lines)\<close>. An exception in a section leaves the function before the
  file is opened.
\<close>

type_synonym filesystem = "string \<Rightarrow> string option"

fun run_sections :: "(string list \<Rightarrow> error + string list) list \<Rightarrow> string list
    \<Rightarrow> error + string list" where
  "run_sections [] lines = Inr lines"
| "run_sections (s # ss) lines =
     (case s lines of Inl e \<Rightarrow> Inl e | Inr lines' \<Rightarrow> run_sections ss lines')"

definition summary_lines :: "output_data \<Rightarrow> error + string list" where
  "summary_lines od =
     run_sections
       [mem_section (mem od),
        cpu_section (mhz od) (usage od),
        ctemps_section (ctemps od),
        watts_section (watts od),
        fans_section (fans od),
        gpus_section (gpus od),
        drives_section (drives od)]
       (preamble od)"

definition write_summary :: "output_data \<Rightarrow> filesystem \<Rightarrow> error + filesystem" where
  "write_summary od fs =
     (case summary_lines od of
        Inl e \<Rightarrow> Inl e
      | Inr lines \<Rightarrow> Inr (fs(summary_fn od \<mapsto> concat lines)))"

section \<open>The CSV appender\<close>

text \<open>
  \<^verbatim>\<open>
  with open(file=output_data.csv_fn, mode='a', encoding='utf-8') as outfile:
      csv_writer = writer(outfile)
      csv_writer.writerow(output_data.data)
  \<close>
  \<^verbatim>\<open>csv.writer\<close> with its default dialect: fields separated by a comma, a field quoted
  when it contains a comma, a double quote, a carriage return or a line feed, a double
  quote inside a quoted field doubled, \<^verbatim>\<open>None\<close> written as the empty field, a row that
  would otherwise be empty although it has a field written as \<^verbatim>\<open>""\<close>, and every row ended
  by carriage return and line feed.
\<close>

abbreviation DQ :: char where
  "DQ \<equiv> CHR 0x22"

definition csv_text :: "pyval \<Rightarrow> string" where
  "csv_text v = (case v of PNone \<Rightarrow> '''' | _ \<Rightarrow> py_str v)"

definition csv_special :: "char \<Rightarrow> bool" where
  "csv_special c = (c = CHR '','' \<or> c = DQ \<or> c = CR \<or> c = NL)"

definition csv_field :: "string \<Rightarrow> string" where
  "csv_field s =
     (if list_ex csv_special s
      then [DQ] @ concat (map (\<lambda>c. if c = DQ then [DQ, DQ] else [c]) s) @ [DQ]
      else s)"

fun join_fields :: "string list \<Rightarrow> string" where
  "join_fields [] = []"
| "join_fields [f] = f"
| "join_fields (f # g # fs) = f @ '','' @ join_fields (g # fs)"

definition writerow :: "pyval list \<Rightarrow> string" where
  "writerow row =
     (let body = join_fields (map (\<lambda>v. csv_field (csv_text v)) row)
      in (if row \<noteq> [] \<and> body = [] then [DQ, DQ] else body) @ [CR, NL])"

definition write_csv :: "output_data \<Rightarrow> filesystem \<Rightarrow> filesystem" where
  "write_csv od fs =
     fs(csv_fn od \<mapsto> (case fs (csv_fn od) of None \<Rightarrow> [] | Some old \<Rightarrow> old) @ writerow (data od))"

section \<open>Notions used to state the properties\<close>

text \<open>The text one replacement field contributes: the display text padded to the width.\<close>

definition field_text :: "(just \<times> nat) \<times> pyval \<Rightarrow> string" where
  "field_text fx = (case fx of ((j, w), x) \<Rightarrow> pad j w (py_str x))"

text \<open>The lines of a sequence of rows, or the first exception that formatting a row raises.\<close>

fun format_all :: "pyval list list \<Rightarrow> nat list \<Rightarrow> just list \<Rightarrow> error + string list" where
  "format_all [] cw js = Inr []"
| "format_all (row # rows) cw js =
     (case format_line row cw js of
        Inl e \<Rightarrow> Inl e
      | Inr l \<Rightarrow> (case format_all rows cw js of Inl e \<Rightarrow> Inl e | Inr ls \<Rightarrow> Inr (l # ls)))"

text \<open>The composite cell of the CPU section, and the row of one core.\<close>

definition cpu_cell_text :: "pyval \<Rightarrow> pyval \<Rightarrow> string" where
  "cpu_cell_text u f = pad JRight 4 (py_str u) @ '':'' @ pad JRight 5 (py_str f)"

definition cpu_pair_row :: "cpufreq \<Rightarrow> category \<Rightarrow> params \<times> params \<Rightarrow> pyval list" where
  "cpu_pair_row mz us mu =
     (case mu of (m, u) \<Rightarrow>
        [get_label mz m,
         PStr (cpu_cell_text (get_min us u) (get_min mz m)),
         PStr (cpu_cell_text (get_max us u) (get_max mz m)),
         PStr (cpu_cell_text (get_mean us u) (get_mean mz m))])"

definition cpu_pair_absent :: "cpufreq \<Rightarrow> category \<Rightarrow> params \<times> params \<Rightarrow> bool" where
  "cpu_pair_absent mz us mu =
     (case mu of (m, u) \<Rightarrow>
        get_min us u = PNone \<or> get_min mz m = PNone \<or> get_max us u = PNone
        \<or> get_max mz m = PNone \<or> get_mean us u = PNone \<or> get_mean mz m = PNone)"

text \<open>
  The contiguous discriminator runs of a sequence: the maximal blocks of neighbouring
  elements with the same value of \<open>f\<close>, in order.
\<close>

fun runs :: "('a \<Rightarrow> 'k) \<Rightarrow> 'a list \<Rightarrow> 'a list list" where
  "runs f [] = []"
| "runs f (x # xs) =
     (case runs f xs of
        [] \<Rightarrow> [[x]]
      | g # gs \<Rightarrow> if f x = f (hd g) then (x # g) # gs else [x] # g # gs)"

text \<open>
  A sequence of calls of the section renderer, one per group (title, data rows, headers),
  stopping at the first exception.
\<close>

fun emit_sections :: "(string \<times> pyval list list \<times> pyval list) list \<Rightarrow> nat list \<Rightarrow> just list
    \<Rightarrow> string list \<Rightarrow> error + string list" where
  "emit_sections [] cw js lines = Inr lines"
| "emit_sections ((title, data_rows, headers) # gs) cw js lines =
     (case append_formatted_section title data_rows headers cw js lines of
        Inl e \<Rightarrow> Inl e
      | Inr lines' \<Rightarrow> emit_sections gs cw js lines')"

text \<open>The group that one run of records makes in each grouped category.\<close>

definition mem_group :: "memusage \<Rightarrow> params list \<Rightarrow> string \<times> pyval list list \<times> pyval list" where
  "mem_group m g = ('''', map (mem_row m) g, mem_headers (p0 (hd g)))"

definition fan_group :: "category \<Rightarrow> params list \<Rightarrow> string \<times> pyval list list \<times> pyval list" where
  "fan_group c g = (p0 (hd g), map (fan_row c) g, fan_headers)"

definition drive_group :: "drivetemp \<Rightarrow> params list
    \<Rightarrow> string \<times> pyval list list \<times> pyval list" where
  "drive_group d g =
     (drive_title d (p0 (hd g)),
      map (drive_row d) (filter (\<lambda>p. get_current d p \<noteq> PNone) g),
      drive_headers)"

text \<open>The remainder of each grouped section from a state of its loop.\<close>

definition mem_from :: "memusage \<Rightarrow> params list \<Rightarrow> string \<Rightarrow> pyval list list \<Rightarrow> pyval list
    \<Rightarrow> string list \<Rightarrow> error + string list" where
  "mem_from m ps mem_type rows headers lines =
     (case mem_loop m ps mem_type rows headers lines of
        Inl e \<Rightarrow> Inl e
      | Inr (rows', headers', lines') \<Rightarrow>
          append_formatted_section '''' rows' headers' mem_column_widths mem_justifications lines')"

definition fans_from :: "category \<Rightarrow> params list \<Rightarrow> string \<Rightarrow> pyval list list \<Rightarrow> string list
    \<Rightarrow> error + string list" where
  "fans_from c ps driver rows lines =
     (case fan_loop c ps driver rows lines of
        Inl e \<Rightarrow> Inl e
      | Inr (driver', rows', lines') \<Rightarrow>
          append_formatted_section driver' rows' fan_headers
            fan_column_widths fan_justifications lines')"

definition drives_from :: "drivetemp \<Rightarrow> params list \<Rightarrow> string \<Rightarrow> pyval list list \<Rightarrow> string list
    \<Rightarrow> error + string list" where
  "drives_from d ps drive rows lines =
     (case drive_loop d ps drive rows lines of
        Inl e \<Rightarrow> Inl e
      | Inr (drive', rows', lines') \<Rightarrow>
          append_formatted_section (drive_title d drive') rows' drive_headers
            drive_column_widths drive_justifications lines')"

text \<open>
  The data rows that a sequence of GPU records contributes, when the device name seen last
  before it is \<open>nm\<close>: for every record, a device header row if its name differs from
  the name of the record before it, and then its metric row if its current value is
  present.
\<close>

fun gpu_run_rows :: "gpudata \<Rightarrow> string \<Rightarrow> params list \<Rightarrow> pyval list list" where
  "gpu_run_rows g nm [] = []"
| "gpu_run_rows g nm (p # ps) =
     (if nm \<noteq> p1 p then [gpu_name_row g (p0 p) (p1 p)] else [])
     @ (if get_current g p \<noteq> PNone then [gpu_row g p] else [])
     @ gpu_run_rows g (p1 p) ps"

text \<open>
  The groups of the GPU section, one per vendor run. The title is the vendor; the driver
  version follows it only on the last group, and only when that group is a single
  \<^verbatim>\<open>nvidia\<close> record.
\<close>

fun gpu_groups :: "gpudata \<Rightarrow> string \<Rightarrow> params list list
    \<Rightarrow> (string \<times> pyval list list \<times> pyval list) list" where
  "gpu_groups g nm [] = []"
| "gpu_groups g nm (r # rs) =
     (p0 (hd r) @ (if rs = [] \<and> length r = 1 \<and> p0 (hd r) = ''nvidia''
                   then '' - '' @ get_driver_version g else ''''),
      gpu_run_rows g nm r,
      gpu_headers)
     # gpu_groups g (p1 (last r)) rs"

definition gpus_from :: "gpudata \<Rightarrow> params list \<Rightarrow> gpu_state \<Rightarrow> error + string list" where
  "gpus_from g ps st =
     (case gpu_loop g ps st of
        Inl e \<Rightarrow> Inl e
      | Inr st' \<Rightarrow>
         (case driver_version st' of
            None \<Rightarrow> Inl UnboundLocalError
          | Some dv \<Rightarrow>
              append_formatted_section (vendor st' @ dv) (gpu_data_rows st') gpu_headers
                gpu_column_widths gpu_justifications (gpu_lines st')))"

definition gpu_run_state :: "gpudata \<Rightarrow> string \<Rightarrow> string \<Rightarrow> params list \<Rightarrow> string list
    \<Rightarrow> gpu_state" where
  "gpu_run_state g v nm pre lines =
     \<lparr>gpu_lines = lines, gpu_data_rows = gpu_run_rows g nm pre, vendor = v,
      name = p1 (last pre),
      driver_version =
        Some (if length pre = 1 \<and> v = ''nvidia'' then '' - '' @ get_driver_version g
              else '''')\<rparr>"

text \<open>A sequence of calls of the CSV appender, one per sample, in order.\<close>

fun write_csv_calls :: "output_data list \<Rightarrow> filesystem \<Rightarrow> filesystem" where
  "write_csv_calls [] fs = fs"
| "write_csv_calls (od # ods) fs = write_csv_calls ods (write_csv od fs)"

text \<open>The text of a row without its line terminator.\<close>

definition row_body :: "pyval list \<Rightarrow> string" where
  "row_body row =
     (let body = join_fields (map (\<lambda>v. csv_field (csv_text v)) row)
      in if row \<noteq> [] \<and> body = [] then [DQ, DQ] else body)"

text \<open>
  The rows of a CSV text: a row ends at a line feed outside double quotes, and the carriage
  return before that line feed is not part of the row. \<open>q\<close> tells whether the scan is
  inside quotes, \<open>acc\<close> is the row read so far.
\<close>

fun csv_rows_from :: "bool \<Rightarrow> string \<Rightarrow> string \<Rightarrow> string list" where
  "csv_rows_from q acc [] = (if acc = [] then [] else [acc])"
| "csv_rows_from q acc (c # cs) =
     (if c = DQ then csv_rows_from (\<not> q) (acc @ [c]) cs
      else if c = NL \<and> \<not> q
        then (if acc \<noteq> [] \<and> last acc = CR then butlast acc else acc) # csv_rows_from False [] cs
      else csv_rows_from q (acc @ [c]) cs)"

definition csv_rows :: "string \<Rightarrow> string list" where
  "csv_rows content = csv_rows_from False [] content"

text \<open>Whether a text has every line feed inside quotes, and the quote state after it.\<close>

fun csv_safe :: "bool \<Rightarrow> string \<Rightarrow> bool" where
  "csv_safe q [] = True"
| "csv_safe q (c # cs) =
     (if c = DQ then csv_safe (\<not> q) cs else (c \<noteq> NL \<or> q) \<and> csv_safe q cs)"

fun csv_qstate :: "bool \<Rightarrow> string \<Rightarrow> bool" where
  "csv_qstate q [] = q"
| "csv_qstate q (c # cs) = csv_qstate (if c = DQ then \<not> q else q) cs"

section \<open>Example inputs\<close>

text \<open>
  Concrete category objects for the evaluations below. The label of a record is the second
  field of its key; the current reading is the first of the remaining key fields, and is
  \<^verbatim>\<open>None\<close> when there is none.
\<close>

definition ex_label :: "params \<Rightarrow> pyval" where
  "ex_label p = PStr (p1 p)"

definition ex_current :: "params \<Rightarrow> pyval" where
  "ex_current p = (case rest p of [] \<Rightarrow> PNone | c # _ \<Rightarrow> PStr c)"

definition ex_category :: "bool \<Rightarrow> params list \<Rightarrow> category" where
  "ex_category e ps =
     \<lparr>is_empty = e, entries = ps, get_label = ex_label, get_current = ex_current,
      get_min = (\<lambda>p. PInt 1), get_max = (\<lambda>p. PInt 9), get_mean = (\<lambda>p. PFloat ''4.5'')\<rparr>"

definition ex_cpufreq :: "params list \<Rightarrow> cpufreq" where
  "ex_cpufreq ps =
     \<lparr>is_empty = False, entries = ps, get_label = ex_label, get_current = ex_current,
      get_min = (\<lambda>p. PFloat ''800.0''), get_max = (\<lambda>p. PFloat ''4200.0''),
      get_mean = (\<lambda>p. PFloat ''2150.5''),
      get_model = PStr ''Example CPU''\<rparr>"

definition ex_memusage :: "bool \<Rightarrow> params list \<Rightarrow> memusage" where
  "ex_memusage e ps =
     \<lparr>is_empty = e, entries = ps, get_label = ex_label, get_current = ex_current,
      get_min = (\<lambda>p. PInt 1), get_max = (\<lambda>p. PInt 9), get_mean = (\<lambda>p. PFloat ''4.5''),
      get_mem_skus = [PStr ''SKU-1'', PStr ''SKU-2'']\<rparr>"

definition ex_gpudata :: "bool \<Rightarrow> params list \<Rightarrow> gpudata" where
  "ex_gpudata e ps =
     \<lparr>is_empty = e, entries = ps, get_label = (\<lambda>p. PStr ''temp''), get_current = ex_current,
      get_min = (\<lambda>p. PInt 1), get_max = (\<lambda>p. PInt 9), get_mean = (\<lambda>p. PFloat ''4.5''),
      get_driver_version = ''550.1'', get_subven = (\<lambda>v n. None)\<rparr>"

definition ex_drivetemp :: "bool \<Rightarrow> params list \<Rightarrow> drivetemp" where
  "ex_drivetemp e ps =
     \<lparr>is_empty = e, entries = ps, get_label = ex_label, get_current = ex_current,
      get_min = (\<lambda>p. PInt 1), get_max = (\<lambda>p. PInt 9), get_mean = (\<lambda>p. PFloat ''4.5''),
      get_drive_model = (\<lambda>d. PStr ''M2'')\<rparr>"

text \<open>A report snapshot from the machine's categories, the other fields fixed.\<close>

definition ex_output :: "memusage \<Rightarrow> cpufreq \<Rightarrow> category \<Rightarrow> category \<Rightarrow> category \<Rightarrow> category
    \<Rightarrow> gpudata \<Rightarrow> drivetemp \<Rightarrow> output_data" where
  "ex_output m mz us ct w f g d =
     \<lparr>csv_fn = ''log.csv'', summary_fn = ''summary.txt'', run_time = PFloat ''60.0'',
      iterations = PInt 12, watts = w, mhz = mz, ctemps = ct, fans = f, gpus = g, drives = d,
      usage = us, mem = m, data = [], time = PStr ''12:00'', model_name = PStr ''X1''\<rparr>"


text \<open>A snapshot whose sample row is \<open>row\<close>, for the CSV appender.\<close>

definition ex_sample :: "pyval list \<Rightarrow> output_data" where
  "ex_sample row =
     (ex_output (ex_memusage False []) (ex_cpufreq []) (ex_category False [])
        (ex_category True []) (ex_category True []) (ex_category True [])
        (ex_gpudata True []) (ex_drivetemp True []))\<lparr>data := row\<rparr>"

lemmas ex_defs = ex_category_def ex_memusage_def ex_gpudata_def ex_drivetemp_def ex_cpufreq_def
  ex_label_def ex_current_def

section \<open>Properties of the line formatter\<close>

lemma pad_overflow: "w \<le> length s \<Longrightarrow> pad j w s = s"
  by (cases j) simp_all

lemma length_pad: "length (pad j w s) = max w (length s)"
  by (cases j) auto

lemma py_format_Inr: "py_format j w x = Inr s \<longleftrightarrow> x \<noteq> PNone \<and> s = pad j w (py_str x)"
  by (cases x) auto

lemma py_format_Inl: "py_format j w x = Inl e \<longleftrightarrow> x = PNone \<and> e = TypeError"
  by (cases x) auto

text \<open>
  The fields are filled from the left: the first \<^verbatim>\<open>None\<close> among the consumed items raises
  \<^verbatim>\<open>TypeError\<close>, otherwise a missing item raises \<^verbatim>\<open>IndexError\<close>, otherwise the line is
  the concatenation of the padded texts.
\<close>

lemma format_fields_char:
  "format_fields fs items =
     (if PNone \<in> set (take (length fs) items) then Inl TypeError
      else if length items < length fs then Inl IndexError
      else Inr (concat (map field_text (zip fs items))))"
proof (induction fs items rule: format_fields.induct)
  case (1 items)
  show ?case by simp
next
  case (2 f fs)
  show ?case by simp
next
  case (3 j w fs x xs)
  show ?case
  proof (cases x)
    case PNone
    then show ?thesis by simp
  next
    case (PStr s)
    with 3 show ?thesis by (simp add: field_text_def)
  next
    case (PInt i)
    with 3 show ?thesis by (simp add: field_text_def)
  next
    case (PFloat t)
    with 3 show ?thesis by (simp add: field_text_def)
  qed
qed

lemma format_line_char:
  "format_line items ws js =
     (if PNone \<in> set (take (min (length ws) (length js)) items) then Inl TypeError
      else if length items < min (length ws) (length js) then Inl IndexError
      else Inr (concat (map field_text (zip (zip js ws) items)) @ [NL]))"
  by (simp add: format_line_def format_fields_char min.commute)

lemma format_line_Inr:
  "format_line items ws js = Inr l \<Longrightarrow> l = concat (map field_text (zip (zip js ws) items)) @ [NL]"
  by (simp add: format_line_char split: if_splits)

lemma field_text_min_width:
  "field_text ((j, w), x) = (if w < length (py_str x) then py_str x else pad j w (py_str x))"
  by (simp add: field_text_def pad_overflow)

lemma length_field_text: "length (field_text ((j, w), x)) = max w (length (py_str x))"
  by (simp add: field_text_def length_pad)

text \<open>
  C5, as amended. \<^verbatim>\<open>format_line\<close> consumes the three lists pairwise: with \<open>n\<close> the smaller of
  the lengths of the widths and the justifications, it makes \<open>n\<close> fields from the first
  \<open>n\<close> items and ignores surplus widths, justifications and items. It returns a line when
  there are at least \<open>n\<close> items and none of the first \<open>n\<close> is \<^verbatim>\<open>None\<close>. It does fail
  otherwise: with fewer than \<open>n\<close> items (none of them \<^verbatim>\<open>None\<close>) it raises
  \<^verbatim>\<open>IndexError\<close>, and a \<^verbatim>\<open>None\<close> among the consumed items raises \<^verbatim>\<open>TypeError\<close>.
\<close>

theorem format_line_pairwise:
  "format_line items ws js =
     (if PNone \<in> set (take (min (length ws) (length js)) items) then Inl TypeError
      else if length items < min (length ws) (length js) then Inl IndexError
      else Inr (concat (map (\<lambda>((j, w), x). pad j w (py_str x)) (zip (zip js ws) items)) @ [NL]))"
proof -
  have "field_text = (\<lambda>((j, w), x). pad j w (py_str x))"
    by (auto simp: field_text_def fun_eq_iff)
  then show ?thesis
    using format_line_char [of items ws js] by simp
qed

theorem format_line_pairwise_witness:
  "format_line [PStr ''ab'', PFloat ''1.5'', PStr ''surplus''] [4, 5, 6] [JLeft, JRight]
     = Inr (''ab    1.5'' @ [NL])"
  using format_line_pairwise [of "[PStr ''ab'', PFloat ''1.5'', PStr ''surplus'']"
      "[4, 5, 6]" "[JLeft, JRight]"]
  by (simp add: numeral_eq_Suc)

text \<open>
  C5 as stated fails: one item for two columns is a well-formed input, and the call does
  not return a line.
\<close>

theorem format_line_unequal_lengths_counterexample:
  "format_line [PStr ''a''] [5, 5] [JLeft, JLeft] = Inl IndexError"
  by (simp add: format_line_def)

text \<open>
  C9. The column width is a minimum field width. Whenever there is an item for every
  field and no consumed item is \<^verbatim>\<open>None\<close>, \<^verbatim>\<open>format_line\<close> returns a line, and in it a
  value whose display text is longer than its column width appears in full, untruncated
  (a shorter one is padded to the width). The length of the line is the sum over the
  fields of the larger of width and text length, plus one for the line terminator, so it
  exceeds the sum of the column widths as soon as one text overflows its column. In
  particular a single value whose text is longer than its width gives a line that is that
  text and the terminator.
\<close>

theorem format_line_min_width:
  "format_line items ws js =
     (if PNone \<in> set (take (min (length ws) (length js)) items) then Inl TypeError
      else if length items < min (length ws) (length js) then Inl IndexError
      else Inr (concat (map (\<lambda>((j, w), x). if w < length (py_str x) then py_str x
                                          else pad j w (py_str x))
                          (zip (zip js ws) items)) @ [NL]))
   \<and> length (concat (map (\<lambda>((j, w), x). if w < length (py_str x) then py_str x
                                          else pad j w (py_str x))
                          (zip (zip js ws) items)) @ [NL])
       = sum_list (map (\<lambda>((j, w), x). max w (length (py_str x))) (zip (zip js ws) items)) + 1
   \<and> (x \<noteq> PNone \<and> w < length (py_str x) \<longrightarrow>
        format_line [x] [w] [j] = Inr (py_str x @ [NL])
        \<and> w + 1 < length (py_str x @ [NL]))"
proof (intro conjI impI)
  have e1: "field_text = (\<lambda>((j, w), x). if w < length (py_str x) then py_str x
                                     else pad j w (py_str x))"
    by (auto simp: field_text_min_width fun_eq_iff)
  have e2: "length \<circ> field_text = (\<lambda>((j, w), x). max w (length (py_str x)))"
    by (auto simp: length_field_text fun_eq_iff)
  show "format_line items ws js =
     (if PNone \<in> set (take (min (length ws) (length js)) items) then Inl TypeError
      else if length items < min (length ws) (length js) then Inl IndexError
      else Inr (concat (map (\<lambda>((j, w), x). if w < length (py_str x) then py_str x
                                          else pad j w (py_str x))
                          (zip (zip js ws) items)) @ [NL]))"
    using format_line_char [of items ws js] unfolding e1 .
  have "length (concat (map field_text (zip (zip js ws) items)) @ [NL])
      = sum_list (map (length \<circ> field_text) (zip (zip js ws) items)) + 1"
    by (simp add: length_concat)
  then show "length (concat (map (\<lambda>((j, w), x). if w < length (py_str x) then py_str x
                                          else pad j w (py_str x))
                          (zip (zip js ws) items)) @ [NL])
       = sum_list (map (\<lambda>((j, w), x). max w (length (py_str x))) (zip (zip js ws) items)) + 1"
    unfolding e2 unfolding e1 .
next
  assume a: "x \<noteq> PNone \<and> w < length (py_str x)"
  then show "format_line [x] [w] [j] = Inr (py_str x @ [NL])"
    by (auto simp: format_line_char field_text_min_width)
next
  assume a: "x \<noteq> PNone \<and> w < length (py_str x)"
  then show "w + 1 < length (py_str x @ [NL])"
    by simp
qed

theorem format_line_min_width_witness:
  "format_line [PStr ''abcdef'', PStr ''7''] [3, 2] [JLeft, JRight] = Inr (''abcdef 7'' @ [NL])
   \<and> length (''abcdef 7'' @ [NL]) = 3 + 2 + 1 + 3
   \<and> format_line [PStr ''abcdef''] [3] [JCenter] = Inr (''abcdef'' @ [NL])"
proof -
  note t = format_line_min_width [of "[PStr ''abcdef'', PStr ''7'']" "[3, 2]" "[JLeft, JRight]"
      "PStr ''abcdef''" 3 JCenter]
  have h: "PStr ''abcdef'' \<noteq> PNone \<and> (3::nat) < length (py_str (PStr ''abcdef''))"
    by simp
  from t [THEN conjunct2, THEN conjunct2, rule_format, OF h]
  have c: "format_line [PStr ''abcdef''] [3] [JCenter] = Inr (''abcdef'' @ [NL])"
    by simp
  from t [THEN conjunct1]
  have a: "format_line [PStr ''abcdef'', PStr ''7''] [3, 2] [JLeft, JRight]
      = Inr (''abcdef 7'' @ [NL])"
    by (simp add: numeral_eq_Suc)
  have b: "length (''abcdef 7'' @ [NL]) = 3 + 2 + 1 + 3"
    by simp
  from a b c show ?thesis by blast
qed

section \<open>Properties of the section renderer\<close>

lemma format_rows_eq:
  "format_rows rows cw js lines =
     (case format_all rows cw js of Inl e \<Rightarrow> Inl e | Inr rl \<Rightarrow> Inr (lines @ rl))"
proof (induction rows arbitrary: lines)
  case Nil
  show ?case by simp
next
  case (Cons row rows)
  show ?case
    by (simp add: Cons.IH split: sum.splits)
qed

lemma format_all_Inr:
  "format_all rows cw js = Inr rl \<Longrightarrow>
     length rl = length rows \<and> (\<forall>i<length rows. format_line (rows ! i) cw js = Inr (rl ! i))"
proof (induction rows arbitrary: rl)
  case Nil
  then show ?case by simp
next
  case (Cons row rows)
  from Cons.prems obtain l ls where l: "format_line row cw js = Inr l"
    and ls: "format_all rows cw js = Inr ls" and rl: "rl = l # ls"
    by (auto split: sum.splits)
  from Cons.IH [OF ls] l rl show ?case
    by (auto simp: nth_Cons split: nat.splits)
qed

lemma format_all_Inr_conv:
  "length rl = length rows \<Longrightarrow> \<forall>i<length rows. format_line (rows ! i) cw js = Inr (rl ! i)
     \<Longrightarrow> format_all rows cw js = Inr rl"
proof (induction rows arbitrary: rl)
  case Nil
  then show ?case by simp
next
  case (Cons row rows)
  from Cons.prems(1) obtain l ls where rl: "rl = l # ls" and len: "length ls = length rows"
    by (cases rl) auto
  from Cons.prems(2) rl have l: "format_line row cw js = Inr l"
    by auto
  have "\<forall>i<length rows. format_line (rows ! i) cw js = Inr (ls ! i)"
  proof (intro allI impI)
    fix i assume "i < length rows"
    then have "Suc i < length (row # rows)" by simp
    with Cons.prems(2) have "format_line ((row # rows) ! Suc i) cw js = Inr (rl ! Suc i)"
      by blast
    with rl show "format_line (rows ! i) cw js = Inr (ls ! i)" by simp
  qed
  with Cons.IH [OF len] have "format_all rows cw js = Inr ls" by blast
  with l rl show ?case by simp
qed

lemma append_formatted_section_eq:
  "append_formatted_section title data_rows headers cw js lines =
     (if data_rows = [] then Inr lines
      else case format_line headers cw js of
             Inl e \<Rightarrow> Inl e
           | Inr h \<Rightarrow>
              (case format_all data_rows cw js of
                 Inl e \<Rightarrow> Inl e
               | Inr rl \<Rightarrow> Inr (lines @ [title] @ [h] @ rl @ [[NL]])))"
  by (simp add: append_formatted_section_def format_rows_eq split: sum.splits)

lemma append_formatted_section_empty:
  "append_formatted_section title [] headers cw js lines = Inr lines"
  by (simp add: append_formatted_section_eq)

lemma append_formatted_section_prefix:
  "append_formatted_section title data_rows headers cw js lines = Inr lines'
     \<Longrightarrow> \<exists>ys. lines' = lines @ ys"
  by (auto simp: append_formatted_section_eq split: if_splits sum.splits)

text \<open>
  The lines that a call of the renderer appends, as the source is written: nothing for an
  empty row sequence; otherwise the title string, the header line, one line per data row
  and the separator, provided the header and every row can be formatted.
\<close>

lemma append_formatted_section_result:
  "(data_rows = [] \<longrightarrow>
      append_formatted_section title data_rows headers cw js lines = Inr lines)
   \<and> (data_rows \<noteq> [] \<and> append_formatted_section title data_rows headers cw js lines = Inr lines'
        \<longrightarrow> (\<exists>h rl. format_line headers cw js = Inr h
               \<and> length rl = length data_rows
               \<and> (\<forall>i<length data_rows. format_line (data_rows ! i) cw js = Inr (rl ! i))
               \<and> lines' = lines @ [title] @ [h] @ rl @ [[NL]]
               \<and> concat lines' = concat lines @ title @ h @ concat rl @ [NL]))
   \<and> (data_rows \<noteq> [] \<and> format_line headers cw js = Inr h \<and> length rl = length data_rows
        \<and> (\<forall>i<length data_rows. format_line (data_rows ! i) cw js = Inr (rl ! i))
        \<longrightarrow> append_formatted_section title data_rows headers cw js lines
              = Inr (lines @ [title] @ [h] @ rl @ [[NL]]))"
proof (intro conjI impI)
  assume "data_rows = []"
  then show "append_formatted_section title data_rows headers cw js lines = Inr lines"
    by (simp add: append_formatted_section_empty)
next
  assume a: "data_rows \<noteq> []
    \<and> append_formatted_section title data_rows headers cw js lines = Inr lines'"
  then obtain h rl where h: "format_line headers cw js = Inr h"
    and rl: "format_all data_rows cw js = Inr rl"
    and l': "lines' = lines @ [title] @ [h] @ rl @ [[NL]]"
    by (auto simp: append_formatted_section_eq split: sum.splits)
  from l' have "concat lines' = concat lines @ title @ h @ concat rl @ [NL]"
    by simp
  with h l' format_all_Inr [OF rl]
  show "\<exists>h rl. format_line headers cw js = Inr h
               \<and> length rl = length data_rows
               \<and> (\<forall>i<length data_rows. format_line (data_rows ! i) cw js = Inr (rl ! i))
               \<and> lines' = lines @ [title] @ [h] @ rl @ [[NL]]
               \<and> concat lines' = concat lines @ title @ h @ concat rl @ [NL]"
    by blast
next
  assume a: "data_rows \<noteq> [] \<and> format_line headers cw js = Inr h
    \<and> length rl = length data_rows
    \<and> (\<forall>i<length data_rows. format_line (data_rows ! i) cw js = Inr (rl ! i))"
  then have "format_all data_rows cw js = Inr rl"
    using format_all_Inr_conv [of rl data_rows cw js] by blast
  with a show "append_formatted_section title data_rows headers cw js lines
              = Inr (lines @ [title] @ [h] @ rl @ [[NL]])"
    by (simp add: append_formatted_section_eq)
qed

text \<open>
  C4. A section should start with its title on a line of its own. The source appends the
  title with \<^verbatim>\<open>lines.append(title)\<close> and no line terminator, while every other string it
  appends ends in one, and the lines are joined without a separator. In the fan section of
  one fan under the driver \<^verbatim>\<open>nct6775\<close> the emitted text therefore starts with the title
  run into the header line, \<^verbatim>\<open>nct6775Fan ...\<close>, and not with the title line followed by
  the header line.
\<close>

theorem title_runs_into_header_line:
  "fans_section (ex_category False [Params ''nct6775'' ''fan1'' [''1200'']]) []
     = Inr [''nct6775'',
        ''Fan               Current(RPM)       Min(RPM)       Max(RPM)      Mean(RPM)'' @ [NL],
        ''fan1                      1200              1              9            4.5'' @ [NL],
        [NL]]
   \<and> concat [''nct6775'',
        ''Fan               Current(RPM)       Min(RPM)       Max(RPM)      Mean(RPM)'' @ [NL],
        ''fan1                      1200              1              9            4.5'' @ [NL],
        [NL]]
     = ''nct6775Fan               Current(RPM)       Min(RPM)       Max(RPM)      Mean(RPM)''
        @ [NL]
        @ ''fan1                      1200              1              9            4.5''
        @ [NL, NL]
   \<and> concat [''nct6775'',
        ''Fan               Current(RPM)       Min(RPM)       Max(RPM)      Mean(RPM)'' @ [NL],
        ''fan1                      1200              1              9            4.5'' @ [NL],
        [NL]]
     \<noteq> ''nct6775'' @ [NL]
        @ ''Fan               Current(RPM)       Min(RPM)       Max(RPM)      Mean(RPM)'' @ [NL]
        @ ''fan1                      1200              1              9            4.5''
        @ [NL, NL]"
  by code_simp

section \<open>The CPU frequency and usage section\<close>

lemma cpu_cell_eq:
  "cpu_cell u f =
     (if u = PNone \<or> f = PNone then Inl TypeError else Inr (PStr (cpu_cell_text u f)))"
  by (cases u; cases f) (simp_all add: cpu_cell_def cpu_cell_text_def)

lemma cpu_row_eq:
  "cpu_row mz us m u =
     (if cpu_pair_absent mz us (m, u) then Inl TypeError else Inr (cpu_pair_row mz us (m, u)))"
  by (simp add: cpu_row_def cpu_cell_eq cpu_pair_absent_def cpu_pair_row_def)

lemma cpu_loop_eq:
  "cpu_loop mz us ps acc =
     (if list_ex (cpu_pair_absent mz us) ps then Inl TypeError
      else Inr (acc @ map (cpu_pair_row mz us) ps))"
proof (induction ps arbitrary: acc)
  case Nil
  show ?case by simp
next
  case (Cons p ps)
  obtain m u where p: "p = (m, u)" by (cases p)
  show ?case
    unfolding p by (simp add: cpu_row_eq Cons.IH)
qed

lemma cpu_section_eq:
  "cpu_section mz us lines =
     (if list_ex (cpu_pair_absent mz us) (zip (entries mz) (entries us)) then Inl TypeError
      else append_formatted_section '''' (map (cpu_pair_row mz us) (zip (entries mz) (entries us)))
             cpu_headers cpu_column_widths cpu_justifications lines)"
  by (simp add: cpu_section_def cpu_loop_eq)

lemma cpu_section_prefix:
  "cpu_section mz us lines = Inr lines' \<Longrightarrow> \<exists>ys. lines' = lines @ ys"
  by (auto simp: cpu_section_eq split: if_splits dest: append_formatted_section_prefix)



section \<open>Contiguous runs and the grouped sections\<close>

lemma concat_runs: "concat (runs f xs) = xs"
  by (induction xs) (auto split: list.splits)

lemma runs_Cons_nonempty: "runs f (x # xs) \<noteq> []"
  by (auto split: list.splits)

lemma runs_eq_Nil: "runs f xs = [] \<longleftrightarrow> xs = []"
  by (cases xs) (auto split: list.splits)

lemma hd_hd_runs: "hd (hd (runs f (x # xs))) = x"
  by (auto split: list.splits)

lemma runs_nonempty: "g \<in> set (runs f xs) \<Longrightarrow> g \<noteq> []"
  by (induction xs arbitrary: g) (auto split: list.splits if_splits)

lemma runs_const: "g \<in> set (runs f xs) \<Longrightarrow> y \<in> set g \<Longrightarrow> f y = f (hd g)"
proof (induction xs arbitrary: g y)
  case Nil
  then show ?case by simp
next
  case (Cons x xs)
  show ?case
  proof (cases "runs f xs")
    case Nil
    with Cons.prems show ?thesis by simp
  next
    case rc: (Cons h hs)
    have h: "h \<in> set (runs f xs)" using rc by simp
    show ?thesis
    proof (cases "f x = f (hd h)")
      case True
      with Cons.prems rc have "g = x # h \<or> g \<in> set hs" by simp
      then show ?thesis
      proof
        assume g: "g = x # h"
        with Cons.prems(2) have "y = x \<or> y \<in> set h" by simp
        then show ?thesis using Cons.IH [OF h] True g by auto
      next
        assume "g \<in> set hs"
        then have "g \<in> set (runs f xs)" using rc by simp
        from Cons.IH [OF this Cons.prems(2)] show ?thesis .
      qed
    next
      case False
      with Cons.prems rc have "g = [x] \<or> g \<in> set (runs f xs)" by auto
      then show ?thesis
      proof
        assume "g = [x]"
        with Cons.prems(2) show ?thesis by simp
      next
        assume "g \<in> set (runs f xs)"
        from Cons.IH [OF this Cons.prems(2)] show ?thesis .
      qed
    qed
  qed
qed

lemma runs_block:
  "pre \<noteq> [] \<Longrightarrow> \<forall>p\<in>set pre. f p = d \<Longrightarrow> f x \<noteq> d
     \<Longrightarrow> runs f (pre @ x # xs) = pre # runs f (x # xs)"
proof (induction pre)
  case Nil
  then show ?case by simp
next
  case (Cons p pre)
  show ?case
  proof (cases "pre = []")
    case True
    obtain g gs where r: "runs f (x # xs) = g # gs"
      using runs_Cons_nonempty [of f x xs] by (cases "runs f (x # xs)") auto
    have "hd g = x" using hd_hd_runs [of f x xs] r by simp
    with Cons.prems True r show ?thesis by simp
  next
    case False
    with Cons have ih: "runs f (pre @ x # xs) = pre # runs f (x # xs)" by simp
    from False Cons.prems have "f p = f (hd pre)" by (cases pre) auto
    with ih show ?thesis by simp
  qed
qed

lemma runs_single: "pre \<noteq> [] \<Longrightarrow> \<forall>p\<in>set pre. f p = d \<Longrightarrow> runs f pre = [pre]"
proof (induction pre)
  case Nil
  then show ?case by simp
next
  case (Cons p pre)
  show ?case
  proof (cases "pre = []")
    case True
    then show ?thesis by simp
  next
    case False
    with Cons have ih: "runs f pre = [pre]" by simp
    from False Cons.prems have "f p = f (hd pre)" by (cases pre) auto
    with ih show ?thesis by simp
  qed
qed

lemma fans_from_runs:
  "pre \<noteq> [] \<Longrightarrow> \<forall>p\<in>set pre. p0 p = driver \<Longrightarrow>
     fans_from c ps driver (map (fan_row c) pre) lines
       = emit_sections (map (fan_group c) (runs p0 (pre @ ps)))
           fan_column_widths fan_justifications lines"
proof (induction ps arbitrary: pre driver lines)
  case Nil
  from Nil have hd: "p0 (hd pre) = driver" by (cases pre) auto
  from Nil have "runs p0 pre = [pre]" by (rule runs_single)
  then show ?case
    using hd by (simp add: fans_from_def fan_group_def split: sum.splits)
next
  case (Cons x ps)
  show ?case
  proof (cases "driver = p0 x")
    case True
    have "fans_from c (x # ps) driver (map (fan_row c) pre) lines
        = fans_from c ps driver (map (fan_row c) (pre @ [x])) lines"
      using True by (simp add: fans_from_def)
    also have "\<dots> = emit_sections (map (fan_group c) (runs p0 ((pre @ [x]) @ ps)))
           fan_column_widths fan_justifications lines"
      using Cons.prems True by (intro Cons.IH) auto
    finally show ?thesis by simp
  next
    case False
    from Cons.prems have hd: "p0 (hd pre) = driver" by (cases pre) auto
    have r: "runs p0 (pre @ x # ps) = pre # runs p0 (x # ps)"
      using Cons.prems False by (intro runs_block [where d = driver]) auto
    have ih: "fans_from c ps (p0 x) [fan_row c x] l
        = emit_sections (map (fan_group c) (runs p0 (x # ps)))
           fan_column_widths fan_justifications l" for l
      using Cons.IH [of "[x]" "p0 x" l] by simp
    have "fans_from c (x # ps) driver (map (fan_row c) pre) lines
        = (case append_formatted_section driver (map (fan_row c) pre) fan_headers
                  fan_column_widths fan_justifications lines of
             Inl e \<Rightarrow> Inl e
           | Inr l \<Rightarrow> fans_from c ps (p0 x) [fan_row c x] l)"
      using False Cons.prems(1) by (simp add: fans_from_def split: sum.splits)
    also have "\<dots> = emit_sections (fan_group c pre # map (fan_group c) (runs p0 (x # ps)))
           fan_column_widths fan_justifications lines"
      using hd by (simp add: ih fan_group_def del: runs.simps split: sum.splits)
    finally show ?thesis
      unfolding r by simp
  qed
qed

lemma fans_section_runs:
  "fans_section c lines =
     (if is_empty c then Inr lines
      else emit_sections (map (fan_group c) (runs p0 (entries c)))
             fan_column_widths fan_justifications lines)"
proof (cases "entries c")
  case Nil
  then show ?thesis
    by (simp add: fans_section_def append_formatted_section_empty)
next
  case (Cons x ps)
  have "fans_from c (x # ps) '''' [] lines = fans_from c ps (p0 x) (map (fan_row c) [x]) lines"
    by (simp add: fans_from_def)
  also have "\<dots> = emit_sections (map (fan_group c) (runs p0 ([x] @ ps)))
      fan_column_widths fan_justifications lines"
    by (intro fans_from_runs) auto
  finally show ?thesis
    using Cons by (simp add: fans_section_def fans_from_def)
qed

lemma mem_from_runs:
  "pre \<noteq> [] \<Longrightarrow> \<forall>p\<in>set pre. p0 p = mem_type \<Longrightarrow>
     mem_from m ps mem_type (map (mem_row m) pre) (mem_headers mem_type) lines
       = emit_sections (map (mem_group m) (runs p0 (pre @ ps)))
           mem_column_widths mem_justifications lines"
proof (induction ps arbitrary: pre mem_type lines)
  case Nil
  from Nil have hd: "p0 (hd pre) = mem_type" by (cases pre) auto
  from Nil have "runs p0 pre = [pre]" by (rule runs_single)
  then show ?case
    using hd by (simp add: mem_from_def mem_group_def split: sum.splits)
next
  case (Cons x ps)
  show ?case
  proof (cases "mem_type = p0 x")
    case True
    have "mem_from m (x # ps) mem_type (map (mem_row m) pre) (mem_headers mem_type) lines
        = mem_from m ps mem_type (map (mem_row m) (pre @ [x])) (mem_headers mem_type) lines"
      using True by (simp add: mem_from_def)
    also have "\<dots> = emit_sections (map (mem_group m) (runs p0 ((pre @ [x]) @ ps)))
           mem_column_widths mem_justifications lines"
      using Cons.prems True by (intro Cons.IH) auto
    finally show ?thesis by simp
  next
    case False
    from Cons.prems have hd: "p0 (hd pre) = mem_type" by (cases pre) auto
    have r: "runs p0 (pre @ x # ps) = pre # runs p0 (x # ps)"
      using Cons.prems False by (intro runs_block [where d = mem_type]) auto
    have ih: "mem_from m ps (p0 x) [mem_row m x] (mem_headers (p0 x)) l
        = emit_sections (map (mem_group m) (runs p0 (x # ps)))
           mem_column_widths mem_justifications l" for l
      using Cons.IH [of "[x]" "p0 x" l] by simp
    have "mem_from m (x # ps) mem_type (map (mem_row m) pre) (mem_headers mem_type) lines
        = (case append_formatted_section '''' (map (mem_row m) pre) (mem_headers mem_type)
                  mem_column_widths mem_justifications lines of
             Inl e \<Rightarrow> Inl e
           | Inr l \<Rightarrow> mem_from m ps (p0 x) [mem_row m x] (mem_headers (p0 x)) l)"
      using False Cons.prems(1) by (simp add: mem_from_def split: sum.splits)
    also have "\<dots> = emit_sections (mem_group m pre # map (mem_group m) (runs p0 (x # ps)))
           mem_column_widths mem_justifications lines"
      using hd by (simp add: ih mem_group_def del: runs.simps split: sum.splits)
    finally show ?thesis
      unfolding r by simp
  qed
qed

lemma mem_section_runs:
  assumes "entries m \<noteq> [] \<longrightarrow> p0 (hd (entries m)) \<noteq> ''''"
  shows "mem_section m lines =
     emit_sections (map (mem_group m) (runs p0 (entries m)))
       mem_column_widths mem_justifications lines"
proof (cases "entries m")
  case Nil
  then show ?thesis
    by (simp add: mem_section_def append_formatted_section_empty)
next
  case (Cons x ps)
  with assms have ne: "p0 x \<noteq> ''''" by simp
  have "mem_from m (x # ps) '''' [] [] lines
      = mem_from m ps (p0 x) (map (mem_row m) [x]) (mem_headers (p0 x)) lines"
    using ne by (simp add: mem_from_def)
  also have "\<dots> = emit_sections (map (mem_group m) (runs p0 ([x] @ ps)))
      mem_column_widths mem_justifications lines"
    by (intro mem_from_runs) auto
  finally show ?thesis
    using Cons by (simp add: mem_section_def mem_from_def)
qed

lemma drives_from_runs:
  "pre \<noteq> [] \<Longrightarrow> \<forall>p\<in>set pre. p0 p = drive \<Longrightarrow>
     drives_from d ps drive (map (drive_row d) (filter (\<lambda>p. get_current d p \<noteq> PNone) pre)) lines
       = emit_sections (map (drive_group d) (runs p0 (pre @ ps)))
           drive_column_widths drive_justifications lines"
proof (induction ps arbitrary: pre drive lines)
  case Nil
  from Nil have hd: "p0 (hd pre) = drive" by (cases pre) auto
  from Nil have "runs p0 pre = [pre]" by (rule runs_single)
  then show ?case
    using hd by (simp add: drives_from_def drive_group_def split: sum.splits)
next
  case (Cons x ps)
  let ?cur = "\<lambda>p. get_current d p \<noteq> PNone"
  show ?case
  proof (cases "drive = p0 x")
    case True
    have "drives_from d (x # ps) drive (map (drive_row d) (filter ?cur pre)) lines
        = drives_from d ps drive (map (drive_row d) (filter ?cur (pre @ [x]))) lines"
      using True by (simp add: drives_from_def drive_append_def)
    also have "\<dots> = emit_sections (map (drive_group d) (runs p0 ((pre @ [x]) @ ps)))
           drive_column_widths drive_justifications lines"
      using Cons.prems True by (intro Cons.IH) auto
    finally show ?thesis by simp
  next
    case False
    from Cons.prems have hd: "p0 (hd pre) = drive" by (cases pre) auto
    have r: "runs p0 (pre @ x # ps) = pre # runs p0 (x # ps)"
      using Cons.prems False by (intro runs_block [where d = drive]) auto
    have ih: "drives_from d ps (p0 x) (map (drive_row d) (filter ?cur [x])) l
        = emit_sections (map (drive_group d) (runs p0 (x # ps)))
           drive_column_widths drive_justifications l" for l
      using Cons.IH [of "[x]" "p0 x" l] by simp
    have ap: "drive_append d x [] = map (drive_row d) (filter ?cur [x])"
      by (simp add: drive_append_def)
    have "drives_from d (x # ps) drive (map (drive_row d) (filter ?cur pre)) lines
        = (case append_formatted_section (drive_title d drive)
                  (map (drive_row d) (filter ?cur pre)) drive_headers
                  drive_column_widths drive_justifications lines of
             Inl e \<Rightarrow> Inl e
           | Inr l \<Rightarrow> drives_from d ps (p0 x) (map (drive_row d) (filter ?cur [x])) l)"
    proof (cases "filter ?cur pre = []")
      case True
      then show ?thesis
        using False unfolding ap [symmetric]
        by (simp add: drives_from_def append_formatted_section_empty)
    next
      case ne: False
      then show ?thesis
        using False unfolding ap [symmetric]
        by (simp add: drives_from_def split: sum.splits)
    qed
    also have "\<dots> = emit_sections (drive_group d pre # map (drive_group d) (runs p0 (x # ps)))
           drive_column_widths drive_justifications lines"
      using hd unfolding ih by (simp add: drive_group_def del: runs.simps split: sum.splits)
    finally show ?thesis
      unfolding r by simp
  qed
qed

lemma drives_section_runs:
  "drives_section d lines =
     (if is_empty d then Inr lines
      else emit_sections (map (drive_group d) (runs p0 (entries d)))
             drive_column_widths drive_justifications lines)"
proof (cases "entries d")
  case Nil
  then show ?thesis
    by (simp add: drives_section_def append_formatted_section_empty)
next
  case (Cons x ps)
  let ?cur = "\<lambda>p. get_current d p \<noteq> PNone"
  have "drives_from d (x # ps) '''' [] lines
      = drives_from d ps (p0 x) (map (drive_row d) (filter ?cur [x])) lines"
    by (simp add: drives_from_def drive_append_def)
  also have "\<dots> = emit_sections (map (drive_group d) (runs p0 ([x] @ ps)))
      drive_column_widths drive_justifications lines"
    by (intro drives_from_runs) auto
  finally show ?thesis
    using Cons by (simp add: drives_section_def drives_from_def)
qed

lemma hd_runs_key: "runs f xs = g # gs \<Longrightarrow> f (hd g) = f (hd xs)"
  by (cases xs) (auto split: list.splits if_splits)

lemma runs_adjacent: "distinct_adj (map (\<lambda>r. f (hd r)) (runs f xs))"
proof (induction xs)
  case Nil
  show ?case by simp
next
  case (Cons x xs)
  show ?case
  proof (cases "runs f xs")
    case Nil
    then show ?thesis by simp
  next
    case rc: (Cons g gs)
    with Cons.IH have ih: "distinct_adj (f (hd g) # map (\<lambda>r. f (hd r)) gs)" by simp
    show ?thesis
    proof (cases "f x = f (hd g)")
      case True
      with rc ih show ?thesis by simp
    next
      case False
      with rc ih show ?thesis by (simp add: distinct_adj_Cons)
    qed
  qed
qed

lemma concat_map_runs: "concat (map (map h) (runs f xs)) = map h xs"
proof -
  have "concat (map (map h) (runs f xs)) = map h (concat (runs f xs))"
    by (simp add: map_concat)
  then show ?thesis by (simp add: concat_runs)
qed

lemma concat_filter_runs:
  "concat (map (\<lambda>r. map h (filter P r)) (runs f xs)) = map h (filter P xs)"
proof -
  have "concat (map (\<lambda>r. map h (filter P r)) (runs f xs))
      = map h (filter P (concat (runs f xs)))"
    by (simp add: map_concat filter_concat comp_def)
  then show ?thesis by (simp add: concat_runs)
qed

section \<open>The GPU section\<close>

lemma gpu_run_rows_snoc:
  "pre \<noteq> [] \<Longrightarrow>
   gpu_run_rows g nm (pre @ [x]) = gpu_run_rows g nm pre @ gpu_run_rows g (p1 (last pre)) [x]"
  by (induction pre arbitrary: nm) auto

lemma gpu_step_same:
  assumes "pre \<noteq> []" "v = p0 x"
  shows "gpu_vendor_step g x (gpu_run_state g v nm pre lines)
      = Inr ((gpu_run_state g v nm pre lines)\<lparr>driver_version := Some ''''\<rparr>)"
  using assms by (simp add: gpu_vendor_step_def gpu_run_state_def)

lemma gpu_rows_step_same:
  assumes "pre \<noteq> []" "v = p0 x"
  shows "gpu_rows_step g x ((gpu_run_state g v nm pre lines)\<lparr>driver_version := Some ''''\<rparr>)
      = gpu_run_state g v nm (pre @ [x]) lines"
  using assms
  by (simp add: gpu_rows_step_def gpu_run_state_def gpu_run_rows_snoc Let_def)

lemma gpu_step_change:
  assumes "v \<noteq> p0 x"
  shows "gpu_vendor_step g x (gpu_run_state g v nm pre lines)
      = (case append_formatted_section v (gpu_run_rows g nm pre) gpu_headers
                gpu_column_widths gpu_justifications lines of
           Inl e \<Rightarrow> Inl e
         | Inr l \<Rightarrow>
             Inr \<lparr>gpu_lines = l, gpu_data_rows = [], vendor = p0 x, name = p1 (last pre),
                  driver_version = Some (if p0 x = ''nvidia'' then '' - '' @ get_driver_version g
                                         else '''')\<rparr>)"
proof (cases "gpu_run_rows g nm pre = []")
  case True
  then show ?thesis
    using assms
    by (simp add: gpu_vendor_step_def gpu_run_state_def append_formatted_section_empty)
next
  case False
  then show ?thesis
    using assms
    by (simp add: gpu_vendor_step_def gpu_run_state_def split: sum.splits)
qed

lemma gpu_rows_step_first:
  "gpu_rows_step g x \<lparr>gpu_lines = l, gpu_data_rows = [], vendor = p0 x, name = nm,
       driver_version = Some (if p0 x = ''nvidia'' then '' - '' @ get_driver_version g
                              else '''')\<rparr>
     = gpu_run_state g (p0 x) nm [x] l"
  by (simp add: gpu_rows_step_def gpu_run_state_def Let_def)

lemma gpus_from_runs:
  "pre \<noteq> [] \<Longrightarrow> \<forall>p\<in>set pre. p0 p = v \<Longrightarrow>
     gpus_from g ps (gpu_run_state g v nm pre lines)
       = emit_sections (gpu_groups g nm (runs p0 (pre @ ps)))
           gpu_column_widths gpu_justifications lines"
proof (induction ps arbitrary: pre v nm lines)
  case Nil
  from Nil have hd: "p0 (hd pre) = v" by (cases pre) auto
  from Nil have "runs p0 pre = [pre]" by (rule runs_single)
  then show ?case
    using hd by (simp add: gpus_from_def gpu_run_state_def split: sum.splits)
next
  case (Cons x ps)
  show ?case
  proof (cases "v = p0 x")
    case True
    have "gpus_from g (x # ps) (gpu_run_state g v nm pre lines)
        = gpus_from g ps (gpu_run_state g v nm (pre @ [x]) lines)"
      using True Cons.prems(1)
      by (simp add: gpus_from_def gpu_step_same gpu_rows_step_same)
    also have "\<dots> = emit_sections (gpu_groups g nm (runs p0 ((pre @ [x]) @ ps)))
           gpu_column_widths gpu_justifications lines"
      using Cons.prems True by (intro Cons.IH) auto
    finally show ?thesis by simp
  next
    case False
    from Cons.prems have hd: "p0 (hd pre) = v" by (cases pre) auto
    have r: "runs p0 (pre @ x # ps) = pre # runs p0 (x # ps)"
      using Cons.prems False by (intro runs_block [where d = v]) auto
    have ne: "runs p0 (x # ps) \<noteq> []" by (rule runs_Cons_nonempty)
    have ih: "gpus_from g ps (gpu_run_state g (p0 x) (p1 (last pre)) [x] l)
        = emit_sections (gpu_groups g (p1 (last pre)) (runs p0 (x # ps)))
           gpu_column_widths gpu_justifications l" for l
      using Cons.IH [of "[x]" "p0 x" "p1 (last pre)" l] by simp
    have "gpus_from g (x # ps) (gpu_run_state g v nm pre lines)
        = (case append_formatted_section v (gpu_run_rows g nm pre) gpu_headers
                gpu_column_widths gpu_justifications lines of
             Inl e \<Rightarrow> Inl e
           | Inr l \<Rightarrow> gpus_from g ps (gpu_run_state g (p0 x) (p1 (last pre)) [x] l))"
    proof (cases "append_formatted_section v (gpu_run_rows g nm pre) gpu_headers
                gpu_column_widths gpu_justifications lines")
      case (Inl e)
      then show ?thesis
        unfolding gpus_from_def gpu_loop.simps gpu_step_change [OF False] by simp
    next
      case (Inr l)
      then show ?thesis
        unfolding gpus_from_def gpu_loop.simps gpu_step_change [OF False]
        by (simp only: sum.case gpu_rows_step_first)
    qed
    also have "\<dots> = emit_sections (gpu_groups g nm (pre # runs p0 (x # ps)))
           gpu_column_widths gpu_justifications lines"
      using hd ne unfolding ih by (simp del: runs.simps split: sum.splits)
    finally show ?thesis
      unfolding r .
  qed
qed

lemma gpus_section_runs:
  "gpus_section g lines =
     (if is_empty g then Inr lines
      else if entries g = [] then Inl UnboundLocalError
      else emit_sections (gpu_groups g '''' (runs p0 (entries g)))
             gpu_column_widths gpu_justifications lines)"
proof (cases "entries g")
  case Nil
  then show ?thesis
    by (simp add: gpus_section_def)
next
  case (Cons x ps)
  let ?st0 = "\<lparr>gpu_lines = lines, gpu_data_rows = [], vendor = '''', name = '''',
                 driver_version = None\<rparr>"
  have vs: "gpu_vendor_step g x ?st0
      = Inr \<lparr>gpu_lines = lines, gpu_data_rows = [], vendor = p0 x, name = '''',
                  driver_version = Some (if p0 x = ''nvidia'' then '' - '' @ get_driver_version g
                                         else '''')\<rparr>"
    by (auto simp: gpu_vendor_step_def)
  have "gpus_from g (x # ps) ?st0 = gpus_from g ps (gpu_run_state g (p0 x) '''' [x] lines)"
    unfolding gpus_from_def gpu_loop.simps vs by (simp only: sum.case gpu_rows_step_first)
  also have "\<dots> = emit_sections (gpu_groups g '''' (runs p0 ([x] @ ps)))
      gpu_column_widths gpu_justifications lines"
    by (intro gpus_from_runs) auto
  finally show ?thesis
    using Cons by (simp add: gpus_section_def gpus_from_def)
qed

lemma gpu_run_rows_append:
  "gpu_run_rows g nm (xs @ ys)
     = gpu_run_rows g nm xs @ gpu_run_rows g (if xs = [] then nm else p1 (last xs)) ys"
  by (induction xs arbitrary: nm) auto

lemma gpu_groups_rows:
  "\<forall>r\<in>set rs. r \<noteq> [] \<Longrightarrow>
   concat (map (\<lambda>t. fst (snd t)) (gpu_groups g nm rs)) = gpu_run_rows g nm (concat rs)"
proof (induction rs arbitrary: nm)
  case Nil
  show ?case by simp
next
  case (Cons r rs)
  then show ?case by (simp add: gpu_run_rows_append)
qed


lemma length_gpu_groups: "length (gpu_groups g nm rs) = length rs"
  by (induction rs arbitrary: nm) simp_all

section \<open>Groups and runs\<close>

lemma group_funs:
  "mem_group m = (\<lambda>r. ('''', map (mem_row m) r, mem_headers (p0 (hd r))))"
  "fan_group c = (\<lambda>r. (p0 (hd r), map (fan_row c) r, fan_headers))"
  "drive_group d = (\<lambda>r. (drive_title d (p0 (hd r)),
      map (drive_row d) (filter (\<lambda>p. get_current d p \<noteq> PNone) r), drive_headers))"
  by (simp_all add: mem_group_def fan_group_def drive_group_def fun_eq_iff)

text \<open>
  C1, as amended. Each grouped section calls the section renderer once per contiguous
  discriminator run of its records, in order; the runs partition the record sequence
  (their concatenation is the sequence, each is non-empty and of one discriminator, and
  neighbouring runs differ in it), so the last run is flushed like every other.

  \<^item> Memory (when the first record's type is not the empty string, the initial value of
    \<^verbatim>\<open>mem_type\<close>) and fans: the group of a run holds the row of every record of the run,
    so every record's row is in exactly one group.
  \<^item> Drives: the group of a run holds the rows of the records of the run whose current
    value is present; a record without current value has no row, and a run without rows
    emits nothing.
  \<^item> GPUs (for at least one record): the rows of the groups, taken together, are, record
    by record, a device header row where the device name changes and the metric row of
    the record if its current value is present.

  A group is written only if formatting it and every group before it raises no exception.
\<close>

theorem grouped_sections_follow_runs:
  "((entries m = [] \<or> p0 (hd (entries m)) \<noteq> '''') \<longrightarrow>
      mem_section m lines =
        emit_sections
          (map (\<lambda>r. ('''', map (mem_row m) r, mem_headers (p0 (hd r)))) (runs p0 (entries m)))
          mem_column_widths mem_justifications lines)
   \<and> (\<not> is_empty f \<longrightarrow>
      fans_section f lines =
        emit_sections
          (map (\<lambda>r. (p0 (hd r), map (fan_row f) r, fan_headers)) (runs p0 (entries f)))
          fan_column_widths fan_justifications lines)
   \<and> (\<not> is_empty d \<longrightarrow>
      drives_section d lines =
        emit_sections
          (map (\<lambda>r. (drive_title d (p0 (hd r)),
                      map (drive_row d) (filter (\<lambda>p. get_current d p \<noteq> PNone) r),
                      drive_headers))
             (runs p0 (entries d)))
          drive_column_widths drive_justifications lines)
   \<and> (\<not> is_empty g \<and> entries g \<noteq> [] \<longrightarrow>
      gpus_section g lines =
        emit_sections (gpu_groups g '''' (runs p0 (entries g)))
          gpu_column_widths gpu_justifications lines
      \<and> length (gpu_groups g '''' (runs p0 (entries g))) = length (runs p0 (entries g))
      \<and> concat (map (\<lambda>t. fst (snd t)) (gpu_groups g '''' (runs p0 (entries g))))
          = gpu_run_rows g '''' (entries g))
   \<and> concat (runs p0 xs) = xs
   \<and> (\<forall>r\<in>set (runs p0 xs). r \<noteq> [] \<and> (\<forall>p\<in>set r. p0 p = p0 (hd r)))
   \<and> distinct_adj (map (\<lambda>r. p0 (hd r)) (runs p0 xs))"
proof (intro conjI impI)
  assume "entries m = [] \<or> p0 (hd (entries m)) \<noteq> ''''"
  then have "entries m \<noteq> [] \<longrightarrow> p0 (hd (entries m)) \<noteq> ''''" by blast
  from mem_section_runs [OF this, of lines]
  show "mem_section m lines =
        emit_sections
          (map (\<lambda>r. ('''', map (mem_row m) r, mem_headers (p0 (hd r)))) (runs p0 (entries m)))
          mem_column_widths mem_justifications lines"
    unfolding group_funs .
next
  assume "\<not> is_empty f"
  with fans_section_runs [of f lines]
  show "fans_section f lines =
        emit_sections
          (map (\<lambda>r. (p0 (hd r), map (fan_row f) r, fan_headers)) (runs p0 (entries f)))
          fan_column_widths fan_justifications lines"
    unfolding group_funs by simp
next
  assume "\<not> is_empty d"
  with drives_section_runs [of d lines]
  show "drives_section d lines =
        emit_sections
          (map (\<lambda>r. (drive_title d (p0 (hd r)),
                      map (drive_row d) (filter (\<lambda>p. get_current d p \<noteq> PNone) r),
                      drive_headers))
             (runs p0 (entries d)))
          drive_column_widths drive_justifications lines"
    unfolding group_funs by simp
next
  assume "\<not> is_empty g \<and> entries g \<noteq> []"
  with gpus_section_runs [of g lines]
  show "gpus_section g lines =
        emit_sections (gpu_groups g '''' (runs p0 (entries g)))
          gpu_column_widths gpu_justifications lines"
    by simp
next
  show "length (gpu_groups g '''' (runs p0 (entries g))) = length (runs p0 (entries g))"
    by (rule length_gpu_groups)
next
  have "\<forall>r\<in>set (runs p0 (entries g)). r \<noteq> []"
  proof
    fix r assume "r \<in> set (runs p0 (entries g))"
    then show "r \<noteq> []" by (rule runs_nonempty)
  qed
  from gpu_groups_rows [OF this, of g "''''"]
  show "concat (map (\<lambda>t. fst (snd t)) (gpu_groups g '''' (runs p0 (entries g))))
          = gpu_run_rows g '''' (entries g)"
    by (simp only: concat_runs)
next
  show "concat (runs p0 xs) = xs" by (rule concat_runs)
next
  show "\<forall>r\<in>set (runs p0 xs). r \<noteq> [] \<and> (\<forall>p\<in>set r. p0 p = p0 (hd r))"
  proof (intro ballI conjI)
    fix r assume "r \<in> set (runs p0 xs)"
    then show "r \<noteq> []" by (rule runs_nonempty)
  next
    fix r p assume "r \<in> set (runs p0 xs)" "p \<in> set r"
    then show "p0 p = p0 (hd r)" by (rule runs_const)
  qed
next
  show "distinct_adj (map (\<lambda>r. p0 (hd r)) (runs p0 xs))" by (rule runs_adjacent)
qed

theorem grouped_sections_follow_runs_witness:
  "mem_section
     (ex_memusage False
        [Params ''DDR5-A'' ''ch0'' [], Params ''DDR5-A'' ''ch1'' [], Params ''DDR5-B'' ''ch2'' []])
     []
   = emit_sections
       [('''', [[PStr ''ch0'', PInt 1, PInt 9, PFloat ''4.5''],
                [PStr ''ch1'', PInt 1, PInt 9, PFloat ''4.5'']],
         [PStr ''DDR5-A'', PStr ''Min'', PStr ''Max'', PStr ''Mean'']),
        ('''', [[PStr ''ch2'', PInt 1, PInt 9, PFloat ''4.5'']],
         [PStr ''DDR5-B'', PStr ''Min'', PStr ''Max'', PStr ''Mean''])]
       mem_column_widths mem_justifications []
   \<and> fans_section
       (ex_category False
          [Params ''nct'' ''fan1'' [''1200''], Params ''nct'' ''fan2'' [''900''],
           Params ''acpi'' ''fan3'' [''0'']])
       []
     = emit_sections
         [(''nct'', [[PStr ''fan1'', PStr ''1200'', PInt 1, PInt 9, PFloat ''4.5''],
                     [PStr ''fan2'', PStr ''900'', PInt 1, PInt 9, PFloat ''4.5'']],
           fan_headers),
          (''acpi'', [[PStr ''fan3'', PStr ''0'', PInt 1, PInt 9, PFloat ''4.5'']], fan_headers)]
         fan_column_widths fan_justifications []
   \<and> drives_section
       (ex_drivetemp False
          [Params ''sda'' ''temp'' [''35''], Params ''sda'' ''wear'' [], Params ''sdb'' ''temp'' []])
       []
     = emit_sections
         [(''Device: sda'' @ [NL] @ ''Drive Model: M2'',
           [[PStr ''temp'', PStr ''35'', PInt 1, PInt 9, PFloat ''4.5'']], drive_headers),
          (''Device: sdb'' @ [NL] @ ''Drive Model: M2'', [], drive_headers)]
         drive_column_widths drive_justifications []
   \<and> gpus_section
       (ex_gpudata False
          [Params ''amd'' '''' [''40''], Params ''nvidia'' '''' [''50''],
           Params ''nvidia'' '''' [''60'']])
       []
     = emit_sections
         [(''amd'', [[PStr ''temp'', PStr ''40'', PInt 1, PInt 9, PFloat ''4.5'']], gpu_headers),
          (''nvidia'', [[PStr ''temp'', PStr ''50'', PInt 1, PInt 9, PFloat ''4.5''],
                        [PStr ''temp'', PStr ''60'', PInt 1, PInt 9, PFloat ''4.5'']], gpu_headers)]
         gpu_column_widths gpu_justifications []"
  using grouped_sections_follow_runs
    [of "ex_memusage False
          [Params ''DDR5-A'' ''ch0'' [], Params ''DDR5-A'' ''ch1'' [], Params ''DDR5-B'' ''ch2'' []]"
        "[]"
        "ex_category False
          [Params ''nct'' ''fan1'' [''1200''], Params ''nct'' ''fan2'' [''900''],
           Params ''acpi'' ''fan3'' [''0'']]"
        "ex_drivetemp False
          [Params ''sda'' ''temp'' [''35''], Params ''sda'' ''wear'' [], Params ''sdb'' ''temp'' []]"
        "ex_gpudata False
          [Params ''amd'' '''' [''40''], Params ''nvidia'' '''' [''50''],
           Params ''nvidia'' '''' [''60'']]"
        "[]"]
  by (simp add: ex_defs mem_row_def mem_headers_def fan_row_def drive_row_def drive_title_def
      gpu_row_def)

text \<open>
  C1 as stated fails for drives: a non-empty record sequence of one run, whose only record
  has no current value, emits no group at all, and the record's row is in no group.
\<close>

theorem absent_current_drops_group_counterexample:
  "\<not> is_empty (ex_drivetemp False [Params ''sda'' ''temp'' []])
   \<and> entries (ex_drivetemp False [Params ''sda'' ''temp'' []]) = [Params ''sda'' ''temp'' []]
   \<and> runs p0 [Params ''sda'' ''temp'' []] = [[Params ''sda'' ''temp'' []]]
   \<and> drives_section (ex_drivetemp False [Params ''sda'' ''temp'' []]) [] = Inr []"
  by (simp add: ex_defs drives_section_def drive_append_def append_formatted_section_empty)

section \<open>The driver version in GPU titles\<close>

text \<open>
  C3. The source sets \<^verbatim>\<open>driver_version\<close> to the suffix when the vendor changes to
  \<^verbatim>\<open>nvidia\<close>, but resets it to the empty string at the start of every iteration, and a
  group is flushed only in a later iteration or after the loop. Here the only group is an
  \<^verbatim>\<open>nvidia\<close> group of two records: its title is \<^verbatim>\<open>nvidia\<close>, without the driver version
  \<^verbatim>\<open>550.1\<close> of the category object.
\<close>

theorem nvidia_title_without_driver_version:
  "gpus_section
     (ex_gpudata False [Params ''nvidia'' '''' [''50''], Params ''nvidia'' '''' [''60'']]) []
   = Inr [''nvidia'',
      ''Data                   Current            Min            Max           Mean'' @ [NL],
      ''temp                        50              1              9            4.5'' @ [NL],
      ''temp                        60              1              9            4.5'' @ [NL],
      [NL]]"
  by code_simp

section \<open>Empty categories\<close>

text \<open>
  C2, as amended. For each of the five guarded categories (CPU temperature, power, fans,
  GPUs, drives), when the \<^verbatim>\<open>is_empty\<close> flag is true the section appends nothing and
  raises nothing, whatever records the category holds. The memory section and the CPU
  frequency/usage section never consult the flag: they are rendered from their records.
  When all five guarded flags are true the summary is the preamble followed by the memory
  and the CPU section only.
\<close>

theorem empty_guarded_category_emits_nothing:
  "(is_empty c \<longrightarrow>
      ctemps_section c lines = Inr lines \<and> watts_section c lines = Inr lines
      \<and> fans_section c lines = Inr lines)
   \<and> (is_empty g \<longrightarrow> gpus_section g lines = Inr lines)
   \<and> (is_empty d \<longrightarrow> drives_section d lines = Inr lines)
   \<and> (is_empty (ctemps od) \<and> is_empty (watts od) \<and> is_empty (fans od) \<and> is_empty (gpus od)
        \<and> is_empty (drives od) \<longrightarrow>
      summary_lines od =
        run_sections [mem_section (mem od), cpu_section (mhz od) (usage od)] (preamble od))"
proof (intro conjI impI)
  assume "is_empty c"
  then show "ctemps_section c lines = Inr lines" by (simp add: ctemps_section_def)
next
  assume "is_empty c"
  then show "watts_section c lines = Inr lines" by (simp add: watts_section_def)
next
  assume "is_empty c"
  then show "fans_section c lines = Inr lines" by (simp add: fans_section_def)
next
  assume "is_empty g"
  then show "gpus_section g lines = Inr lines" by (simp add: gpus_section_def)
next
  assume "is_empty d"
  then show "drives_section d lines = Inr lines" by (simp add: drives_section_def)
next
  assume "is_empty (ctemps od) \<and> is_empty (watts od) \<and> is_empty (fans od)
    \<and> is_empty (gpus od) \<and> is_empty (drives od)"
  then show "summary_lines od =
        run_sections [mem_section (mem od), cpu_section (mhz od) (usage od)] (preamble od)"
    by (simp add: summary_lines_def ctemps_section_def watts_section_def fans_section_def
        gpus_section_def drives_section_def split: sum.splits)
qed

theorem empty_guarded_category_emits_nothing_witness:
  "is_empty (ex_category True [Params ''nct'' ''fan1'' [''1200'']])
   \<and> ctemps_section (ex_category True [Params ''nct'' ''fan1'' [''1200'']]) [''P''] = Inr [''P'']
   \<and> watts_section (ex_category True [Params ''nct'' ''fan1'' [''1200'']]) [''P''] = Inr [''P'']
   \<and> fans_section (ex_category True [Params ''nct'' ''fan1'' [''1200'']]) [''P''] = Inr [''P'']
   \<and> is_empty (ex_gpudata True [Params ''nvidia'' ''RTX'' [''50'']])
   \<and> gpus_section (ex_gpudata True [Params ''nvidia'' ''RTX'' [''50'']]) [''P''] = Inr [''P'']
   \<and> is_empty (ex_drivetemp True [Params ''sda'' ''temp'' [''35'']])
   \<and> drives_section (ex_drivetemp True [Params ''sda'' ''temp'' [''35'']]) [''P''] = Inr [''P'']"
proof -
  have c: "is_empty (ex_category True [Params ''nct'' ''fan1'' [''1200'']])"
    by (simp add: ex_defs)
  have g: "is_empty (ex_gpudata True [Params ''nvidia'' ''RTX'' [''50'']])"
    by (simp add: ex_defs)
  have d: "is_empty (ex_drivetemp True [Params ''sda'' ''temp'' [''35'']])"
    by (simp add: ex_defs)
  from c g d empty_guarded_category_emits_nothing
    [of "ex_category True [Params ''nct'' ''fan1'' [''1200'']]" "[''P'']"
        "ex_gpudata True [Params ''nvidia'' ''RTX'' [''50'']]"
        "ex_drivetemp True [Params ''sda'' ''temp'' [''35'']]"]
  show ?thesis by blast
qed

text \<open>
  C2 as stated fails for the memory category, which has no guard: with the flag true and a
  residual record, the section is emitted.
\<close>

theorem empty_memory_still_rendered_counterexample:
  "is_empty (ex_memusage True [Params ''DDR5'' ''ch0'' []])
   \<and> mem_section (ex_memusage True [Params ''DDR5'' ''ch0'' []]) []
     = Inr ['''',
        ''DDR5                            Min                 Max                Mean'' @ [NL],
        ''ch0                               1                   9                 4.5'' @ [NL],
        [NL]]"
  by code_simp

section \<open>Column widths\<close>

text \<open>
  C7, as amended. The column widths are fixed literals per category: memory 15/20/20/20,
  CPU frequency and usage 15/15/15/15, CPU temperature 15/10/10/10, power 10/10/10/10,
  and fans, GPUs and drives 15/15/15/15/15. The power section does not share the widths
  of the temperature section: its first column is 10 wide.
\<close>

theorem column_widths_per_category:
  "mem_column_widths = [15, 20, 20, 20]
   \<and> cpu_column_widths = [15, 15, 15, 15]
   \<and> ctemps_column_widths = [15, 10, 10, 10]
   \<and> watts_column_widths = [10, 10, 10, 10]
   \<and> fan_column_widths = [15, 15, 15, 15, 15]
   \<and> gpu_column_widths = [15, 15, 15, 15, 15]
   \<and> drive_column_widths = [15, 15, 15, 15, 15]
   \<and> ctemps_section c lines =
       (if is_empty c then Inr lines
        else append_formatted_section '''' (map (stat_row c) (entries c))
               [PStr ''Core'', PStr ''Min C'', PStr ''Max C'', PStr ''Mean C'']
               [15, 10, 10, 10] [JLeft, JRight, JRight, JRight] lines)
   \<and> watts_section c lines =
       (if is_empty c then Inr lines
        else append_formatted_section '''' (map (stat_row c) (entries c))
               [PStr ''CPU'', PStr ''Min W'', PStr ''Max W'', PStr ''Mean W'']
               [10, 10, 10, 10] [JLeft, JRight, JRight, JRight] lines)"
  by (simp add: mem_column_widths_def cpu_column_widths_def ctemps_column_widths_def
      watts_column_widths_def fan_column_widths_def gpu_column_widths_def
      drive_column_widths_def ctemps_section_def watts_section_def ctemps_headers_def
      watts_headers_def ctemps_justifications_def watts_justifications_def)

theorem column_widths_per_category_witness:
  "watts_section (ex_category False [Params ''pkg'' ''CPU 0'' []]) []
     = append_formatted_section '''' [[PStr ''CPU 0'', PInt 1, PInt 9, PFloat ''4.5'']]
         [PStr ''CPU'', PStr ''Min W'', PStr ''Max W'', PStr ''Mean W'']
         [10, 10, 10, 10] [JLeft, JRight, JRight, JRight] []
   \<and> ctemps_section (ex_category False [Params ''pkg'' ''Core 0'' []]) []
     = append_formatted_section '''' [[PStr ''Core 0'', PInt 1, PInt 9, PFloat ''4.5'']]
         [PStr ''Core'', PStr ''Min C'', PStr ''Max C'', PStr ''Mean C'']
         [15, 10, 10, 10] [JLeft, JRight, JRight, JRight] []"
  using column_widths_per_category [of "ex_category False [Params ''pkg'' ''CPU 0'' []]" "[]"]
    column_widths_per_category [of "ex_category False [Params ''pkg'' ''Core 0'' []]" "[]"]
  by (simp add: ex_defs stat_row_def)

text \<open>
  C7 as stated fails for the power section: its lines are laid out with a first column of
  width 10, and differ from the layout 15/10/10/10.
\<close>

theorem power_widths_counterexample:
  "watts_section (ex_category False [Params ''pkg'' ''CPU 0'' []]) []
     = Inr ['''',
        ''CPU            Min W     Max W    Mean W'' @ [NL],
        ''CPU 0              1         9       4.5'' @ [NL],
        [NL]]
   \<and> append_formatted_section '''' [[PStr ''CPU 0'', PInt 1, PInt 9, PFloat ''4.5'']]
         [PStr ''CPU'', PStr ''Min W'', PStr ''Max W'', PStr ''Mean W'']
         [15, 10, 10, 10] [JLeft, JRight, JRight, JRight] []
     = Inr ['''',
        ''CPU                 Min W     Max W    Mean W'' @ [NL],
        ''CPU 0                   1         9       4.5'' @ [NL],
        [NL]]
   \<and> watts_section (ex_category False [Params ''pkg'' ''CPU 0'' []]) []
     \<noteq> append_formatted_section '''' [[PStr ''CPU 0'', PInt 1, PInt 9, PFloat ''4.5'']]
         [PStr ''CPU'', PStr ''Min W'', PStr ''Max W'', PStr ''Mean W'']
         [15, 10, 10, 10] [JLeft, JRight, JRight, JRight] []"
  by code_simp

section \<open>Properties of the report assembler\<close>

lemma emit_sections_prefix:
  "emit_sections gs cw js lines = Inr lines' \<Longrightarrow> \<exists>ys. lines' = lines @ ys"
proof (induction gs arbitrary: lines)
  case Nil
  then show ?case by simp
next
  case (Cons grp gs)
  obtain t rows hdr where grp: "grp = (t, rows, hdr)" by (cases grp)
  from Cons.prems grp obtain l1 where
    a: "append_formatted_section t rows hdr cw js lines = Inr l1"
    and b: "emit_sections gs cw js l1 = Inr lines'"
    by (auto split: sum.splits)
  from append_formatted_section_prefix [OF a] obtain ys where "l1 = lines @ ys" ..
  moreover from Cons.IH [OF b] obtain zs where "lines' = l1 @ zs" ..
  ultimately show ?case by simp
qed

lemma mem_loop_prefix:
  "mem_loop m ps t rows h lines = Inr (rows', h', lines') \<Longrightarrow> \<exists>ys. lines' = lines @ ys"
proof (induction ps arbitrary: t rows h lines)
  case Nil
  then show ?case by simp
next
  case (Cons x ps)
  show ?case
  proof (cases "t \<noteq> p0 x \<and> rows \<noteq> []")
    case True
    with Cons.prems obtain l1 where
      a: "append_formatted_section '''' rows h mem_column_widths mem_justifications lines = Inr l1"
      and b: "mem_loop m ps (p0 x) [mem_row m x] (mem_headers (p0 x)) l1 = Inr (rows', h', lines')"
      by (auto split: sum.splits)
    from append_formatted_section_prefix [OF a] obtain ys where "l1 = lines @ ys" ..
    moreover from Cons.IH [OF b] obtain zs where "lines' = l1 @ zs" ..
    ultimately show ?thesis by simp
  next
    case False
    with Cons.prems obtain t1 r1 h1 where "mem_loop m ps t1 r1 h1 lines = Inr (rows', h', lines')"
      by (auto split: if_splits)
    from Cons.IH [OF this] show ?thesis .
  qed
qed

lemma mem_section_prefix:
  "mem_section m lines = Inr lines' \<Longrightarrow> \<exists>ys. lines' = lines @ ys"
proof -
  assume a: "mem_section m lines = Inr lines'"
  then obtain rows h l1 where
    b: "mem_loop m (entries m) '''' [] [] lines = Inr (rows, h, l1)"
    and c: "append_formatted_section '''' rows h mem_column_widths mem_justifications l1
        = Inr lines'"
    by (auto simp: mem_section_def split: sum.splits)
  from mem_loop_prefix [OF b] obtain ys where "l1 = lines @ ys" ..
  moreover from append_formatted_section_prefix [OF c] obtain zs where "lines' = l1 @ zs" ..
  ultimately show ?thesis by simp
qed

lemma ctemps_section_prefix:
  "ctemps_section c lines = Inr lines' \<Longrightarrow> \<exists>ys. lines' = lines @ ys"
  by (auto simp: ctemps_section_def split: if_splits dest: append_formatted_section_prefix)

lemma watts_section_prefix:
  "watts_section c lines = Inr lines' \<Longrightarrow> \<exists>ys. lines' = lines @ ys"
  by (auto simp: watts_section_def split: if_splits dest: append_formatted_section_prefix)

lemma fans_section_prefix:
  "fans_section c lines = Inr lines' \<Longrightarrow> \<exists>ys. lines' = lines @ ys"
  by (auto simp: fans_section_runs split: if_splits dest: emit_sections_prefix)

lemma drives_section_prefix:
  "drives_section c lines = Inr lines' \<Longrightarrow> \<exists>ys. lines' = lines @ ys"
  by (auto simp: drives_section_runs split: if_splits dest: emit_sections_prefix)

lemma gpus_section_prefix:
  "gpus_section c lines = Inr lines' \<Longrightarrow> \<exists>ys. lines' = lines @ ys"
  by (auto simp: gpus_section_runs split: if_splits dest: emit_sections_prefix)

lemma summary_lines_prefix:
  assumes "summary_lines od = Inr ls"
  shows "\<exists>ys. ls = preamble od @ ys"
proof -
  from assms obtain l1 l2 l3 l4 l5 l6 where
    s1: "mem_section (mem od) (preamble od) = Inr l1"
    and s2: "cpu_section (mhz od) (usage od) l1 = Inr l2"
    and s3: "ctemps_section (ctemps od) l2 = Inr l3"
    and s4: "watts_section (watts od) l3 = Inr l4"
    and s5: "fans_section (fans od) l4 = Inr l5"
    and s6: "gpus_section (gpus od) l5 = Inr l6"
    and s7: "drives_section (drives od) l6 = Inr ls"
    by (auto simp: summary_lines_def split: sum.splits)
  from mem_section_prefix [OF s1] obtain y1 where "l1 = preamble od @ y1" ..
  moreover from cpu_section_prefix [OF s2] obtain y2 where "l2 = l1 @ y2" ..
  moreover from ctemps_section_prefix [OF s3] obtain y3 where "l3 = l2 @ y3" ..
  moreover from watts_section_prefix [OF s4] obtain y4 where "l4 = l3 @ y4" ..
  moreover from fans_section_prefix [OF s5] obtain y5 where "l5 = l4 @ y5" ..
  moreover from gpus_section_prefix [OF s6] obtain y6 where "l6 = l5 @ y6" ..
  moreover from drives_section_prefix [OF s7] obtain y7 where "ls = l6 @ y7" ..
  ultimately show ?thesis by simp
qed


lemma concat_preamble:
  "concat (preamble od) =
     ''Summary:'' @ [NL] @ ''Model: '' @ py_str (model_name od) @ [NL]
     @ ''Start Time: '' @ py_str (time od) @ [NL]
     @ ''Runtime: '' @ py_str (run_time od) @ [NL]
     @ ''CPU: '' @ py_str (get_model (mhz od)) @ [NL]
     @ ''Memory SKUs:'' @ [NL]
     @ concat (map (\<lambda>sku. ''DIMM: '' @ py_str sku @ [NL]) (get_mem_skus (mem od)))"
  by (simp add: preamble_def)

text \<open>
  What a call of \<^verbatim>\<open>write_summary\<close> that returns has done: it has stored, at the summary
  path, a document that begins with the preamble, and has touched no other path. With no
  memory records, no CPU pairs and the five guarded categories empty the call returns and
  the document is the preamble. An exception raised while a section is rendered leaves
  the function before the file is opened.
\<close>

lemma write_summary_result:
  "(write_summary od fs = Inr fs' \<longrightarrow>
      (\<exists>rest. fs' = fs(summary_fn od \<mapsto> concat (preamble od) @ rest))
      \<and> fs' (summary_fn od) \<noteq> None \<and> fs' (summary_fn od) \<noteq> Some [])
   \<and> concat (preamble od) =
       ''Summary:'' @ [NL] @ ''Model: '' @ py_str (model_name od) @ [NL]
       @ ''Start Time: '' @ py_str (time od) @ [NL]
       @ ''Runtime: '' @ py_str (run_time od) @ [NL]
       @ ''CPU: '' @ py_str (get_model (mhz od)) @ [NL]
       @ ''Memory SKUs:'' @ [NL]
       @ concat (map (\<lambda>sku. ''DIMM: '' @ py_str sku @ [NL]) (get_mem_skus (mem od)))
   \<and> (entries (mem od) = [] \<and> (entries (mhz od) = [] \<or> entries (usage od) = [])
        \<and> is_empty (ctemps od) \<and> is_empty (watts od) \<and> is_empty (fans od)
        \<and> is_empty (gpus od) \<and> is_empty (drives od) \<longrightarrow>
      write_summary od fs = Inr (fs(summary_fn od \<mapsto> concat (preamble od))))
   \<and> (summary_lines od = Inl e \<longrightarrow> write_summary od fs = Inl e)"
proof (intro conjI impI)
  assume a: "write_summary od fs = Inr fs'"
  then obtain ls where ls: "summary_lines od = Inr ls"
    and fs': "fs' = fs(summary_fn od \<mapsto> concat ls)"
    by (auto simp: write_summary_def split: sum.splits)
  from summary_lines_prefix [OF ls] obtain ys where ys: "ls = preamble od @ ys" ..
  with fs' have e: "fs' = fs(summary_fn od \<mapsto> concat (preamble od) @ concat ys)" by simp
  then show "\<exists>rest. fs' = fs(summary_fn od \<mapsto> concat (preamble od) @ rest)" ..
  from e show "fs' (summary_fn od) \<noteq> None" by simp
  from e show "fs' (summary_fn od) \<noteq> Some []" by (simp add: concat_preamble)
next
  show "concat (preamble od) =
       ''Summary:'' @ [NL] @ ''Model: '' @ py_str (model_name od) @ [NL]
       @ ''Start Time: '' @ py_str (time od) @ [NL]
       @ ''Runtime: '' @ py_str (run_time od) @ [NL]
       @ ''CPU: '' @ py_str (get_model (mhz od)) @ [NL]
       @ ''Memory SKUs:'' @ [NL]
       @ concat (map (\<lambda>sku. ''DIMM: '' @ py_str sku @ [NL]) (get_mem_skus (mem od)))"
    by (rule concat_preamble)
next
  assume a: "entries (mem od) = [] \<and> (entries (mhz od) = [] \<or> entries (usage od) = [])
        \<and> is_empty (ctemps od) \<and> is_empty (watts od) \<and> is_empty (fans od)
        \<and> is_empty (gpus od) \<and> is_empty (drives od)"
  then have z: "zip (entries (mhz od)) (entries (usage od)) = []" by auto
  have m: "mem_section (mem od) l = Inr l" for l
    using a by (simp add: mem_section_def append_formatted_section_empty)
  have c: "cpu_section (mhz od) (usage od) l = Inr l" for l
    unfolding cpu_section_def z by (simp add: append_formatted_section_empty)
  have "summary_lines od = Inr (preamble od)"
    using a by (simp add: summary_lines_def m c ctemps_section_def watts_section_def
        fans_section_def gpus_section_def drives_section_def)
  then show "write_summary od fs = Inr (fs(summary_fn od \<mapsto> concat (preamble od)))"
    by (simp add: write_summary_def)
next
  assume "summary_lines od = Inl e"
  then show "write_summary od fs = Inl e" by (simp add: write_summary_def)
qed

text \<open>
  C10. Every call of \<^verbatim>\<open>write_summary\<close> should write a document that begins with the
  preamble. The source breaks this on a machine with a named GPU: when the device name
  changes, the loop appends the device header row \<^verbatim>\<open>[f"GPU: {name}\n{subsystem_info}"]\<close>,
  a row of one item, to the rows that are formatted with five columns, so formatting that
  row raises \<^verbatim>\<open>IndexError\<close>; the exception leaves \<^verbatim>\<open>write_summary\<close> before the file is
  opened, and no document is written. Here all other categories are empty and the only
  GPU record is of the device \<^verbatim>\<open>RTX\<close> of vendor \<^verbatim>\<open>nvidia\<close>.
\<close>

theorem write_summary_named_gpu_raises:
  "format_line (gpu_name_row (ex_gpudata False [Params ''nvidia'' ''RTX'' [''50'']])
       ''nvidia'' ''RTX'') gpu_column_widths gpu_justifications
     = Inl IndexError
   \<and> gpus_section (ex_gpudata False [Params ''nvidia'' ''RTX'' [''50'']]) [] = Inl IndexError
   \<and> write_summary
       (ex_output (ex_memusage False []) (ex_cpufreq [])
          (ex_category False []) (ex_category True []) (ex_category True [])
          (ex_category True []) (ex_gpudata False [Params ''nvidia'' ''RTX'' [''50'']])
          (ex_drivetemp True []))
       Map.empty
     = Inl IndexError"
proof -
  have a: "format_line (gpu_name_row (ex_gpudata False [Params ''nvidia'' ''RTX'' [''50'']])
       ''nvidia'' ''RTX'') gpu_column_widths gpu_justifications
     = Inl IndexError"
    by code_simp
  have b: "gpus_section (ex_gpudata False [Params ''nvidia'' ''RTX'' [''50'']]) []
     = Inl IndexError"
    by code_simp
  have "summary_lines
     (ex_output (ex_memusage False []) (ex_cpufreq [])
        (ex_category False []) (ex_category True []) (ex_category True [])
        (ex_category True []) (ex_gpudata False [Params ''nvidia'' ''RTX'' [''50'']])
        (ex_drivetemp True [])) = Inl IndexError"
    by code_simp
  then have c: "write_summary
       (ex_output (ex_memusage False []) (ex_cpufreq [])
          (ex_category False []) (ex_category True []) (ex_category True [])
          (ex_category True []) (ex_gpudata False [Params ''nvidia'' ''RTX'' [''50'']])
          (ex_drivetemp True []))
       Map.empty
     = Inl IndexError"
    by (simp add: write_summary_def)
  from a b c show ?thesis by blast
qed

section \<open>Properties of the CSV appender\<close>

lemma writerow_body: "writerow row = row_body row @ [CR, NL]"
  by (simp add: writerow_def row_body_def Let_def)

lemma csv_rows_from_safe:
  "csv_safe q xs \<Longrightarrow>
     csv_rows_from q acc (xs @ post) = csv_rows_from (csv_qstate q xs) (acc @ xs) post"
  by (induction xs arbitrary: q acc) (auto split: if_splits)

lemma csv_safe_append:
  "csv_safe q (xs @ ys) \<longleftrightarrow> csv_safe q xs \<and> csv_safe (csv_qstate q xs) ys"
  by (induction xs arbitrary: q) auto

lemma csv_qstate_append: "csv_qstate q (xs @ ys) = csv_qstate (csv_qstate q xs) ys"
  by (induction xs arbitrary: q) auto

lemma plain_safe:
  "\<not> list_ex csv_special s \<Longrightarrow> csv_safe q s \<and> csv_qstate q s = q"
  by (induction s) (auto simp: csv_special_def)

lemma escaped_safe:
  "csv_safe True (concat (map (\<lambda>c. if c = DQ then [DQ, DQ] else [c]) s))
   \<and> csv_qstate True (concat (map (\<lambda>c. if c = DQ then [DQ, DQ] else [c]) s)) = True"
  by (induction s) auto

lemma field_safe: "csv_safe False (csv_field s) \<and> csv_qstate False (csv_field s) = False"
proof (cases "list_ex csv_special s")
  case True
  then show ?thesis
    using escaped_safe [of s]
    by (simp add: csv_field_def csv_safe_append csv_qstate_append)
next
  case False
  then show ?thesis
    using plain_safe [of s False] by (simp add: csv_field_def)
qed

lemma join_safe:
  "csv_safe False (join_fields (map csv_field ts))
   \<and> csv_qstate False (join_fields (map csv_field ts)) = False"
proof (induction ts rule: join_fields.induct)
  case 1
  show ?case by simp
next
  case (2 f)
  show ?case using field_safe [of f] by simp
next
  case (3 f g fs)
  then show ?case
    using field_safe [of f] by (simp add: csv_safe_append csv_qstate_append)
qed

lemma row_body_safe:
  "csv_safe False (row_body row) \<and> csv_qstate False (row_body row) = False"
proof -
  have m: "map (\<lambda>v. csv_field (csv_text v)) row = map csv_field (map csv_text row)"
    by simp
  show ?thesis
    unfolding row_body_def Let_def m using join_safe [of "map csv_text row"] by simp
qed

lemma csv_rows_from_writerow:
  "csv_rows_from False [] (writerow row @ post) = row_body row # csv_rows_from False [] post"
proof -
  have "csv_rows_from False [] (row_body row @ ([CR, NL] @ post))
      = csv_rows_from False ([] @ row_body row) ([CR, NL] @ post)"
    using row_body_safe [of row] csv_rows_from_safe [of False "row_body row" "[]" "[CR, NL] @ post"]
    by simp
  also have "\<dots> = row_body row # csv_rows_from False [] post"
    by simp
  finally show ?thesis by (simp add: writerow_body)
qed

lemma csv_rows_writerows: "csv_rows (concat (map writerow rows)) = map row_body rows"
  unfolding csv_rows_def
  by (induction rows) (simp_all add: csv_rows_from_writerow)

lemma write_csv_at: 
  "write_csv od fs (csv_fn od)
     = Some ((case fs (csv_fn od) of None \<Rightarrow> [] | Some old \<Rightarrow> old) @ writerow (data od))"
  by (simp add: write_csv_def)

lemma write_csv_other: "q \<noteq> csv_fn od \<Longrightarrow> write_csv od fs q = fs q"
  by (simp add: write_csv_def)

lemma write_csv_calls_content:
  "\<forall>od\<in>set ods. csv_fn od = p \<Longrightarrow> ods \<noteq> [] \<Longrightarrow>
     write_csv_calls ods fs p
       = Some ((case fs p of None \<Rightarrow> [] | Some old \<Rightarrow> old)
               @ concat (map (\<lambda>od. writerow (data od)) ods))"
proof (induction ods arbitrary: fs)
  case Nil
  then show ?case by simp
next
  case (Cons od ods)
  from Cons.prems have p: "csv_fn od = p" by simp
  show ?case
  proof (cases "ods = []")
    case True
    then show ?thesis using write_csv_at [of od fs] p by simp
  next
    case False
    from Cons.prems have "\<forall>od\<in>set ods. csv_fn od = p" by simp
    from Cons.IH [OF this False, of "write_csv od fs"]
    show ?thesis using write_csv_at [of od fs] p by simp
  qed
qed

text \<open>
  C8. After a sequence of calls on a path that does not exist, the file holds exactly the
  texts of the rows of the calls, in call order (it exists as soon as there was one call),
  and read back as CSV text it has exactly as many rows as there were calls, the row of
  each call in its place. A single call appends the text of exactly one row to the content the file had (the empty
  content when the file is absent, so the file is created), leaves that content unchanged
  in front of it, and touches no other path.
\<close>

theorem write_csv_appends_rows:
  "(fs p = None \<and> (\<forall>od\<in>set ods. csv_fn od = p) \<longrightarrow>
      write_csv_calls ods fs p =
        (if ods = [] then None else Some (concat (map (\<lambda>od. writerow (data od)) ods)))
      \<and> csv_rows (concat (map (\<lambda>od. writerow (data od)) ods))
          = map (\<lambda>od. row_body (data od)) ods
      \<and> length (csv_rows (concat (map (\<lambda>od. writerow (data od)) ods))) = length ods)
   \<and> write_csv od fs (csv_fn od)
       = Some ((case fs (csv_fn od) of None \<Rightarrow> [] | Some old \<Rightarrow> old) @ writerow (data od))
   \<and> csv_rows (writerow row) = [row_body row]
   \<and> (q \<noteq> csv_fn od \<longrightarrow> write_csv od fs q = fs q)"
proof (intro conjI impI)
  assume a: "fs p = None \<and> (\<forall>od\<in>set ods. csv_fn od = p)"
  show "write_csv_calls ods fs p =
        (if ods = [] then None else Some (concat (map (\<lambda>od. writerow (data od)) ods)))"
  proof (cases "ods = []")
    case True
    with a show ?thesis by simp
  next
    case False
    from a have "\<forall>od\<in>set ods. csv_fn od = p" by simp
    from write_csv_calls_content [OF this False, of fs] a False
    show ?thesis by simp
  qed
next
  have m: "map (\<lambda>od. writerow (data od)) ods = map writerow (map data ods)"
    by simp
  show r: "csv_rows (concat (map (\<lambda>od. writerow (data od)) ods))
          = map (\<lambda>od. row_body (data od)) ods"
    unfolding m csv_rows_writerows by simp
  show "length (csv_rows (concat (map (\<lambda>od. writerow (data od)) ods))) = length ods"
    unfolding r by simp
next
  show "write_csv od fs (csv_fn od)
       = Some ((case fs (csv_fn od) of None \<Rightarrow> [] | Some old \<Rightarrow> old) @ writerow (data od))"
    by (rule write_csv_at)
next
  show "csv_rows (writerow row) = [row_body row]"
    using csv_rows_writerows [of "[row]"] by simp
next
  assume "q \<noteq> csv_fn od"
  then show "write_csv od fs q = fs q" by (rule write_csv_other)
qed

theorem write_csv_appends_rows_witness:
  "write_csv_calls
     [ex_sample [PStr ''a,b'', PInt 1, PFloat ''2.5''], ex_sample [PNone, PStr ''x'']]
     Map.empty ''log.csv''
   = Some ([DQ] @ ''a,b'' @ [DQ] @ '',1,2.5'' @ [CR, NL] @ '',x'' @ [CR, NL])
   \<and> csv_rows ([DQ] @ ''a,b'' @ [DQ] @ '',1,2.5'' @ [CR, NL] @ '',x'' @ [CR, NL])
     = [[DQ] @ ''a,b'' @ [DQ] @ '',1,2.5'', '',x'']"
proof -
  let ?ods = "[ex_sample [PStr ''a,b'', PInt 1, PFloat ''2.5''], ex_sample [PNone, PStr ''x'']]"
  have fn: "\<forall>od\<in>set ?ods. csv_fn od = ''log.csv''"
    by (simp add: ex_sample_def ex_output_def)
  have w1: "writerow (data (ex_sample [PStr ''a,b'', PInt 1, PFloat ''2.5'']))
      = [DQ] @ ''a,b'' @ [DQ] @ '',1,2.5'' @ [CR, NL]"
    by code_simp
  have w2: "writerow (data (ex_sample [PNone, PStr ''x''])) = '',x'' @ [CR, NL]"
    by code_simp
  have b1: "row_body (data (ex_sample [PStr ''a,b'', PInt 1, PFloat ''2.5'']))
      = [DQ] @ ''a,b'' @ [DQ] @ '',1,2.5''"
    by code_simp
  have b2: "row_body (data (ex_sample [PNone, PStr ''x''])) = '',x''"
    by code_simp
  have h: "Map.empty ''log.csv'' = None \<and> (\<forall>od\<in>set ?ods. csv_fn od = ''log.csv'')"
    using fn by simp
  note t = write_csv_appends_rows [of Map.empty "''log.csv''" ?ods, THEN conjunct1, rule_format, OF h]
  from t show ?thesis
    unfolding list.map concat.simps w1 w2 b1 b2 by simp
qed

end
